theory Spec2Isabelle
  imports Main
begin

section \<open>Data model of \<open>regex.py\<close>\<close>

text \<open>
  A Python \<open>str\<close> is modelled as a \<open>string\<close>, one \<open>char\<close> per character; the
  characters are the code points below 256, so that both ASCII characters (below 128) and
  non-ASCII characters (128 and above) occur.  Python integers are \<open>int\<close>.
  An exception raised by the program is a value of the type \<open>error\<close>; \<open>RecursionError\<close>
  is the one the interpreter raises when a call would nest deeper than its recursion limit.
\<close>

datatype error = AttributeError string | IndexError | RecursionError

text \<open>\<open>str.isascii\<close> on a one-character string: the code point is below 128.\<close>

definition isascii :: "char \<Rightarrow> bool" where
  "isascii c = (of_char c < (128::nat))"

text \<open>
  \<open>xs[k]\<close> on a Python sequence: a negative index counts from the end, and an index out
  of range raises \<open>IndexError\<close>.
\<close>

definition py_index :: "'a list \<Rightarrow> int \<Rightarrow> error + 'a" where
  "py_index xs k =
     (if 0 \<le> k \<and> k < int (length xs) then Inr (xs ! nat k)
      else if k < 0 \<and> - int (length xs) \<le> k then Inr (xs ! nat (k + int (length xs)))
      else Inl IndexError)"

subsection \<open>State objects on a heap\<close>

text \<open>
  The state classes are objects with identity: \<open>next_states\<close> is a list that is
  appended to after construction, and \<open>StarState\<close> and \<open>PlusState\<close> hold a
  reference to another state.  An object is a heap cell, a reference is its address.
  Every constructor sets \<open>self.next_states\<close> to a fresh list.  The methods
  \<open>check_self\<close> and \<open>check_next\<close> are called neither by \<open>__init__\<close> nor by
  \<open>check_string\<close>; they are left out.
\<close>

type_synonym addr = nat

datatype state_kind =
    StartState
  | TerminationState
  | DotState
  | AsciiState char
  | StarState addr
  | PlusState addr

record state_obj =
  kind :: state_kind
  next_states :: "addr list"

type_synonym heap = "state_obj list"

definition alloc :: "heap \<Rightarrow> state_obj \<Rightarrow> addr \<times> heap" where
  "alloc h obj = (length h, h @ [obj])"

text \<open>\<open>state.next_states.append(x)\<close> for the object at address \<open>a\<close>.\<close>

definition append_next :: "heap \<Rightarrow> addr \<Rightarrow> addr \<Rightarrow> heap" where
  "append_next h a x = h[a := (h ! a)\<lparr>next_states := next_states (h ! a) @ [x]\<rparr>]"

definition new_StartState :: "heap \<Rightarrow> addr \<times> heap" where
  "new_StartState h = alloc h \<lparr>kind = StartState, next_states = []\<rparr>"

definition new_TerminationState :: "heap \<Rightarrow> addr \<times> heap" where
  "new_TerminationState h = alloc h \<lparr>kind = TerminationState, next_states = []\<rparr>"

definition new_DotState :: "heap \<Rightarrow> addr \<times> heap" where
  "new_DotState h = alloc h \<lparr>kind = DotState, next_states = []\<rparr>"

definition new_AsciiState :: "char \<Rightarrow> heap \<Rightarrow> addr \<times> heap" where
  "new_AsciiState symbol h = alloc h \<lparr>kind = AsciiState symbol, next_states = []\<rparr>"

definition new_StarState :: "addr \<Rightarrow> heap \<Rightarrow> addr \<times> heap" where
  "new_StarState checking_state h =
     alloc h \<lparr>kind = StarState checking_state, next_states = [checking_state]\<rparr>"

definition new_PlusState :: "addr \<Rightarrow> heap \<Rightarrow> addr \<times> heap" where
  "new_PlusState checking_state h =
     alloc h \<lparr>kind = PlusState checking_state, next_states = [checking_state]\<rparr>"

subsection \<open>The class \<open>RegexFSM\<close>\<close>

text \<open>
  \<open>curr_state: State = StartState()\<close> is a class attribute: the one \<open>StartState\<close>
  object is created when the class body runs, and \<open>self.curr_state\<close> reads it in every
  instance, since no instance assigns the attribute.  It lives at address 0 of the heap as it
  is after the module has been loaded.
\<close>

definition RegexFSM_curr_state :: addr where
  "RegexFSM_curr_state = 0"

definition module_heap :: heap where
  "module_heap = snd (new_StartState [])"

text \<open>The instance attributes: \<open>__init__\<close> assigns only \<open>regex_expr\<close>.\<close>

record RegexFSM =
  regex_expr :: string

text \<open>
  \<open>__init_next_state\<close>: the \<open>match\<close> statement on the token, cases in the source's
  order.  The result is the heap, and either the exception or the address of the new state.
\<close>

definition RegexFSM_init_next_state ::
    "char \<Rightarrow> addr \<Rightarrow> addr \<Rightarrow> heap \<Rightarrow> heap \<times> (error + addr)" where
  "RegexFSM_init_next_state next_token prev_state tmp_next_state h =
     (if next_token = CHR ''.'' then
        (let (a, h') = new_DotState h in (h', Inr a))
      else if next_token = CHR ''*'' then
        (let (a, h') = new_StarState tmp_next_state h in (h', Inr a))
      else if next_token = CHR ''+'' then
        (let (a, h') = new_PlusState tmp_next_state h in (h', Inr a))
      else if isascii next_token then
        (let (a, h') = new_AsciiState next_token h in (h', Inr a))
      else (h, Inl (AttributeError ''Character is not supported'')))"

text \<open>
  The \<open>for\<close> loop of \<open>__init__\<close> over the remaining characters.  \<open>prev_state\<close> is
  never reassigned; an exception leaves the loop with the heap as mutated so far.
\<close>

fun RegexFSM_init_loop ::
    "string \<Rightarrow> addr \<Rightarrow> addr \<Rightarrow> heap \<Rightarrow> heap \<times> (error + addr)" where
  "RegexFSM_init_loop [] prev_state tmp_next_state h = (h, Inr tmp_next_state)"
| "RegexFSM_init_loop (char # rest) prev_state tmp_next_state h =
     (case RegexFSM_init_next_state char prev_state tmp_next_state h of
        (h1, Inl e) \<Rightarrow> (h1, Inl e)
      | (h1, Inr new_state) \<Rightarrow>
          RegexFSM_init_loop rest prev_state new_state (append_next h1 prev_state new_state))"

text \<open>
  \<open>RegexFSM.__init__\<close>, the compilation of a pattern.  It nests three calls at most,
  whatever the pattern (\<open>__init__\<close>, \<open>__init_next_state\<close>, a constructor), so it carries
  no bound on the depth; only the depth of \<open>_match\<close> grows with its arguments.
\<close>

definition RegexFSM_init :: "string \<Rightarrow> heap \<Rightarrow> heap \<times> (error + RegexFSM)" where
  "RegexFSM_init expr h =
     (let prev_state = RegexFSM_curr_state;
          tmp_next_state = RegexFSM_curr_state
      in case RegexFSM_init_loop expr prev_state tmp_next_state h of
           (h1, Inl e) \<Rightarrow> (h1, Inl e)
         | (h1, Inr tmp) \<Rightarrow>
             (let (t, h2) = new_TerminationState h1
              in (append_next h2 prev_state t, Inr \<lparr>regex_expr = expr\<rparr>)))"

subsection \<open>The matcher\<close>

text \<open>
  \<open>next_is_quant = (j + 1 < len(p)) and p[j+1] in '*+'\<close>; \<open>and\<close> evaluates its right
  operand only when the left one holds.
\<close>

definition next_is_quant :: "string \<Rightarrow> int \<Rightarrow> error + bool" where
  "next_is_quant p j =
     (if j + 1 < int (length p) then
        (case py_index p (j + 1) of
           Inl e \<Rightarrow> Inl e
         | Inr q \<Rightarrow> Inr (q = CHR ''*'' \<or> q = CHR ''+''))
      else Inr False)"

text \<open>\<open>first_match = i < len(s) and char in (s[i], '.')\<close>.\<close>

definition first_match :: "string \<Rightarrow> int \<Rightarrow> char \<Rightarrow> error + bool" where
  "first_match s i char =
     (if i < int (length s) then
        (case py_index s i of
           Inl e \<Rightarrow> Inl e
         | Inr c \<Rightarrow> Inr (char = c \<or> char = CHR ''.''))
      else Inr False)"

text \<open>
  \<open>RegexFSM._match\<close>.  The recursion is not structural, so the function is defined as a
  partial function: \<open>None\<close> stands for a call that does not return, \<open>Some (Inl e)\<close>
  for a call that raises \<open>e\<close>, \<open>Some (Inr b)\<close> for a call that returns \<open>b\<close>.
  The cursors are Python integers, so a negative index reads from the end of the string, as
  \<open>py_index\<close> has it.

  Every call of \<open>_match\<close> nests one interpreter frame inside the frame of its caller, and
  the interpreter raises \<open>RecursionError\<close> instead of entering a frame beyond its recursion
  limit (\<open>sys.getrecursionlimit()\<close>, 1000 unless the program changes it).  The argument
  \<open>depth\<close> is the number of frames the interpreter still allows at the call: with none
  left the call raises, otherwise the calls made by the body have one frame less.  Only the
  frames of Python functions are counted (as the interpreter does from version 3.12 on): the
  built-in \<open>len\<close> and the indexing of a string take none.  The program catches no
  exception, so an error of a recursive call is the error of the caller.
\<close>

partial_function (option) RegexFSM_match ::
    "nat \<Rightarrow> string \<Rightarrow> int \<Rightarrow> string \<Rightarrow> int \<Rightarrow> (error + bool) option" where
  "RegexFSM_match depth s i p j =
     (if depth = 0 then Some (Inl RecursionError)
      else if j = int (length p) then Some (Inr (i = int (length s)))
      else
        (case next_is_quant p j of
           Inl e \<Rightarrow> Some (Inl e)
         | Inr niq \<Rightarrow>
        (case py_index p j of
           Inl e \<Rightarrow> Some (Inl e)
         | Inr char \<Rightarrow>
        (case first_match s i char of
           Inl e \<Rightarrow> Some (Inl e)
         | Inr fm \<Rightarrow>
          if niq then
            (case py_index p (j + 1) of
               Inl e \<Rightarrow> Some (Inl e)
             | Inr q \<Rightarrow>
               if q = CHR ''*'' then
                 Option.bind (RegexFSM_match (depth - 1) s i p (j + 2)) (\<lambda>r1.
                   (case r1 of
                      Inl e \<Rightarrow> Some (Inl e)
                    | Inr b1 \<Rightarrow>
                        if b1 then Some (Inr True)
                        else if fm then
                          Option.bind (RegexFSM_match (depth - 1) s (i + 1) p j) (\<lambda>r2.
                            (case r2 of
                               Inl e \<Rightarrow> Some (Inl e)
                             | Inr b2 \<Rightarrow> if b2 then Some (Inr True) else Some (Inr False)))
                        else Some (Inr False)))
               else if \<not> fm then Some (Inr False)
               else
                 Option.bind (RegexFSM_match (depth - 1) s (i + 1) p j) (\<lambda>r1.
                   (case r1 of
                      Inl e \<Rightarrow> Some (Inl e)
                    | Inr b1 \<Rightarrow>
                        if b1 then Some (Inr True)
                        else RegexFSM_match (depth - 1) s (i + 1) p (j + 2))))
          else if fm then RegexFSM_match (depth - 1) s (i + 1) p (j + 1)
          else Some (Inr False)))))"

text \<open>
  \<open>RegexFSM.check_string\<close>: a call of its own, so it needs a frame too, and \<open>_match\<close>
  starts one frame deeper.  Here \<open>depth\<close> is the number of frames the interpreter still
  allows where \<open>check_string\<close> is called: the recursion limit less the frames of the
  callers.
\<close>

definition RegexFSM_check_string ::
    "nat \<Rightarrow> RegexFSM \<Rightarrow> string \<Rightarrow> (error + bool) option" where
  "RegexFSM_check_string depth self input_str =
     (if depth = 0 then Some (Inl RecursionError)
      else RegexFSM_match (depth - 1) input_str 0 (regex_expr self) 0)"

declare RegexFSM_match.simps [code]

subsection \<open>The matcher on the remaining input and the remaining pattern\<close>

text \<open>
  An auxiliary view used in the proofs: the branching of \<open>_match\<close> written on the part
  of the input from \<open>i\<close> on and the part of the pattern from \<open>j\<close> on.  Lemma
  \<open>match_refines\<close> below shows that \<open>RegexFSM_match\<close> computes exactly this function at
  every cursor inside the two strings, unless it runs out of frames.
\<close>

fun match_suffix :: "string \<Rightarrow> string \<Rightarrow> bool" where
  "match_suffix s [] = (s = [])"
| "match_suffix s [c] =
     (case s of [] \<Rightarrow> False | x # s' \<Rightarrow> (c = x \<or> c = CHR ''.'') \<and> match_suffix s' [])"
| "match_suffix s (c # q # r) =
     (if q = CHR ''*'' then
        match_suffix s r \<or>
        (case s of [] \<Rightarrow> False | x # s' \<Rightarrow> (c = x \<or> c = CHR ''.'') \<and> match_suffix s' (c # q # r))
      else if q = CHR ''+'' then
        (case s of [] \<Rightarrow> False
         | x # s' \<Rightarrow> (c = x \<or> c = CHR ''.'') \<and> (match_suffix s' (c # q # r) \<or> match_suffix s' r))
      else
        (case s of [] \<Rightarrow> False | x # s' \<Rightarrow> (c = x \<or> c = CHR ''.'') \<and> match_suffix s' (q # r)))"

declare match_suffix.simps [simp del]

text \<open>
  What a call at a cursor inside the strings can give: the verdict \<open>b\<close>, or
  \<open>RecursionError\<close> when it runs out of frames.
\<close>

definition verdict_or_overflow :: "(error + bool) option \<Rightarrow> bool \<Rightarrow> bool" where
  "verdict_or_overflow r b = (r = Some (Inl RecursionError) \<or> r = Some (Inr b))"

section \<open>What a pattern denotes\<close>

text \<open>
  The reading of a pattern that the specification gives, independent of the matcher; the
  definitions of this section follow the specification's words, not the code.  A pattern
  is a sequence of elements, each an atom (a literal character or the wildcard \<open>.\<close>) taken
  once, zero or more times (\<open>*\<close>) or one or more times (\<open>+\<close>); a quantifier modifies
  the atom immediately before it.  A string fully matches the pattern when it is the
  concatenation of one string per element, each in the language of its element.
\<close>

datatype atom = Literal char | AnyChar

datatype element = Single atom | ZeroOrMore atom | OneOrMore atom

definition atom_of :: "char \<Rightarrow> atom" where
  "atom_of c = (if c = CHR ''.'' then AnyChar else Literal c)"

fun atom_accepts :: "atom \<Rightarrow> char \<Rightarrow> bool" where
  "atom_accepts (Literal c) x = (x = c)"
| "atom_accepts AnyChar x = True"

fun spec_elements :: "string \<Rightarrow> element list" where
  "spec_elements [] = []"
| "spec_elements [c] = [Single (atom_of c)]"
| "spec_elements (c # q # r) =
     (if q = CHR ''*'' then ZeroOrMore (atom_of c) # spec_elements r
      else if q = CHR ''+'' then OneOrMore (atom_of c) # spec_elements r
      else Single (atom_of c) # spec_elements (q # r))"

fun spec_element_lang :: "element \<Rightarrow> string set" where
  "spec_element_lang (Single a) = {[x] | x. atom_accepts a x}"
| "spec_element_lang (ZeroOrMore a) = {w. \<forall>x \<in> set w. atom_accepts a x}"
| "spec_element_lang (OneOrMore a) = {w. w \<noteq> [] \<and> (\<forall>x \<in> set w. atom_accepts a x)}"

fun spec_pattern_lang :: "element list \<Rightarrow> string set" where
  "spec_pattern_lang [] = {[]}"
| "spec_pattern_lang (e # es) = {u @ v | u v. u \<in> spec_element_lang e \<and> v \<in> spec_pattern_lang es}"

definition spec_fully_matches :: "string \<Rightarrow> string \<Rightarrow> bool" where
  "spec_fully_matches p s = (s \<in> spec_pattern_lang (spec_elements p))"

definition is_quant :: "char \<Rightarrow> bool" where
  "is_quant c = (c = CHR ''*'' \<or> c = CHR ''+'')"

fun no_double_quant :: "string \<Rightarrow> bool" where
  "no_double_quant (a # b # r) = (\<not> (is_quant a \<and> is_quant b) \<and> no_double_quant (b # r))"
| "no_double_quant r = True"

definition spec_well_formed :: "string \<Rightarrow> bool" where
  "spec_well_formed p = ((case p of [] \<Rightarrow> True | c # r \<Rightarrow> \<not> is_quant c) \<and> no_double_quant p)"

section \<open>Properties of the matcher\<close>

subsection \<open>Indexing inside a string\<close>

lemma py_index_nat: "py_index xs (int k) = (if k < length xs then Inr (xs ! k) else Inl IndexError)"
  by (simp add: py_index_def)

lemma next_is_quant_nat:
  "next_is_quant p (int j) = Inr (Suc j < length p \<and> (p ! Suc j = CHR ''*'' \<or> p ! Suc j = CHR ''+''))"
  using py_index_nat[of p "Suc j"] by (simp add: next_is_quant_def add.commute)

lemma first_match_nat:
  "first_match s (int i) c = Inr (i < length s \<and> (c = s ! i \<or> c = CHR ''.''))"
  using py_index_nat[of s i] by (simp add: first_match_def)

lemma py_index_in_range:
  "0 \<le> k \<Longrightarrow> k < int (length xs) \<Longrightarrow> py_index xs k = Inr (xs ! nat k)"
  by (simp add: py_index_def)

lemma next_is_quant_in_range:
  "0 \<le> j \<Longrightarrow> next_is_quant p j =
     Inr (j + 1 < int (length p) \<and> (p ! nat (j + 1) = CHR ''*'' \<or> p ! nat (j + 1) = CHR ''+''))"
  by (simp add: next_is_quant_def py_index_in_range)

lemma first_match_in_range:
  "0 \<le> i \<Longrightarrow> first_match s i c =
     Inr (i < int (length s) \<and> (c = s ! nat i \<or> c = CHR ''.''))"
  by (simp add: first_match_def py_index_in_range)

lemma py_index_Inr_less: "py_index xs k = Inr x \<Longrightarrow> k < int (length xs)"
  by (auto simp add: py_index_def split: if_splits)

lemma first_match_True_less: "first_match s i c = Inr True \<Longrightarrow> i < int (length s)"
  by (auto simp add: first_match_def split: if_splits)

lemma py_index_error: "py_index xs k = Inl e \<Longrightarrow> e = IndexError"
  by (auto simp add: py_index_def split: if_splits)

lemma next_is_quant_error: "next_is_quant p j = Inl e \<Longrightarrow> e = IndexError"
  by (auto simp add: next_is_quant_def split: if_splits sum.splits dest: py_index_error)

lemma first_match_error: "first_match s i c = Inl e \<Longrightarrow> e = IndexError"
  by (auto simp add: first_match_def split: if_splits sum.splits dest: py_index_error)

subsection \<open>The matcher computes \<open>match_suffix\<close>, or runs out of frames\<close>

lemma match_no_frame: "RegexFSM_match 0 s i p j = Some (Inl RecursionError)"
  by (subst RegexFSM_match.simps) simp

lemma match_at_end:
  "RegexFSM_match (Suc d) s i p (int (length p)) = Some (Inr (i = int (length s)))"
  by (subst RegexFSM_match.simps) simp

lemma bool_result:
  "(if a then Some (Inr True) else Some (Inr b)) = (Some (Inr (a \<or> b)) :: (error + bool) option)"
  by simp

lemma match_refines_app:
  "verdict_or_overflow
     (RegexFSM_match d (s1 @ s2) (int (length s1)) (p1 @ p2) (int (length p1)))
     (match_suffix s2 p2)"
proof (induction s2 p2 arbitrary: d s1 p1 rule: match_suffix.induct)
  case (1 s)
  show ?case
  proof (cases d)
    case 0
    then show ?thesis by (simp add: match_no_frame verdict_or_overflow_def)
  next
    case (Suc d')
    show ?thesis
      unfolding Suc verdict_or_overflow_def
      using match_at_end[of d' "s1 @ s" "int (length s1)" p1]
      by (auto simp add: match_suffix.simps(1))
  qed
next
  case (2 s c)
  show ?case
  proof (cases d)
    case 0
    then show ?thesis by (simp add: match_no_frame verdict_or_overflow_def)
  next
    case (Suc d')
    show ?thesis
    proof (cases s)
      case Nil
      show ?thesis
        unfolding Nil Suc
        apply (subst RegexFSM_match.simps)
        apply (subst match_suffix.simps)
        apply (simp add: next_is_quant_nat first_match_nat py_index_nat verdict_or_overflow_def)
        done
    next
      case (Cons x s')
      have D: "verdict_or_overflow
          (RegexFSM_match d' (s1 @ x # s') (int (length s1) + 1) (p1 @ [c]) (int (length p1) + 1))
          (match_suffix s' [])"
        using "2.IH"[OF Cons, of d' "s1 @ [x]" "p1 @ [c]"] by (simp add: add.commute)
      show ?thesis
        unfolding Cons Suc
        apply (subst RegexFSM_match.simps)
        apply (subst match_suffix.simps)
        using D
        apply (auto simp add: next_is_quant_nat first_match_nat py_index_nat
            verdict_or_overflow_def cong: if_cong)
        done
    qed
  qed
next
  case (3 s c q r)
  show ?case
  proof (cases d)
    case 0
    then show ?thesis by (simp add: match_no_frame verdict_or_overflow_def)
  next
    case (Suc d')
    have A: "verdict_or_overflow
        (RegexFSM_match d' (s1 @ s) (int (length s1)) (p1 @ c # q # r) (int (length p1) + 2))
        (match_suffix s r)" if "q = CHR ''*''"
      using "3.IH"(1)[OF that, of d' s1 "p1 @ [c, q]"] by (simp add: add.commute)
    have pj: "py_index (p1 @ c # q # r) (int (length p1) + 1) = Inr q"
      using py_index_nat[of "p1 @ c # q # r" "Suc (length p1)"]
      by (simp add: add.commute nth_append)
    show ?thesis
    proof (cases s)
      case Nil
      show ?thesis
        unfolding Suc Nil
        apply (subst RegexFSM_match.simps)
        apply (subst match_suffix.simps)
        using A[unfolded Nil] pj
        apply (auto simp add: next_is_quant_nat first_match_nat py_index_nat nth_append
            verdict_or_overflow_def bool_result cong: if_cong)
        done
    next
      case (Cons x s')
      have B: "verdict_or_overflow
          (RegexFSM_match d' (s1 @ x # s') (int (length s1) + 1) (p1 @ c # q # r) (int (length p1)))
          (match_suffix s' (c # q # r))" if "q = CHR ''*'' \<or> q = CHR ''+''"
        using that "3.IH"(2)[OF _ Cons, of d' "s1 @ [x]" p1]
          "3.IH"(3)[OF _ _ Cons, of d' "s1 @ [x]" p1]
        by (auto simp add: add.commute)
      have C: "verdict_or_overflow
          (RegexFSM_match d' (s1 @ x # s') (int (length s1) + 1) (p1 @ c # q # r)
            (int (length p1) + 2))
          (match_suffix s' r)" if "q = CHR ''+''"
        using that "3.IH"(4)[OF _ _ Cons, of d' "s1 @ [x]" "p1 @ [c, q]"]
        by (auto simp add: add.commute)
      have D: "verdict_or_overflow
          (RegexFSM_match d' (s1 @ x # s') (int (length s1) + 1) (p1 @ c # q # r)
            (int (length p1) + 1))
          (match_suffix s' (q # r))" if "q \<noteq> CHR ''*''" "q \<noteq> CHR ''+''"
        using that "3.IH"(5)[OF _ _ Cons, of d' "s1 @ [x]" "p1 @ [c]"]
        by (auto simp add: add.commute)
      show ?thesis
        unfolding Suc Cons
        apply (subst RegexFSM_match.simps)
        apply (subst match_suffix.simps)
        using A[unfolded Cons] B C D pj
        apply (auto simp add: next_is_quant_nat first_match_nat py_index_nat nth_append
            verdict_or_overflow_def bool_result cong: if_cong)
        done
    qed
  qed
qed

subsection \<open>Every call returns or raises\<close>

lemma match_total: "\<exists>r. RegexFSM_match d s i p j = Some r"
proof (induction d arbitrary: i j)
  case 0
  show ?case by (simp add: match_no_frame)
next
  case (Suc d)
  obtain r1 where r1: "RegexFSM_match d s i p (j + 2) = Some r1" using Suc by blast
  obtain r2 where r2: "RegexFSM_match d s (i + 1) p j = Some r2" using Suc by blast
  obtain r3 where r3: "RegexFSM_match d s (i + 1) p (j + 2) = Some r3" using Suc by blast
  obtain r4 where r4: "RegexFSM_match d s (i + 1) p (j + 1) = Some r4" using Suc by blast
  show ?case
    apply (subst RegexFSM_match.simps)
    using r1 r2 r3 r4
    by (auto split: sum.splits cong: if_cong)
qed

text \<open>
  The remaining pattern and the remaining input bound the depth of the recursion: a call that
  has more frames than positions left does not run out of frames.
\<close>

lemma match_depth_bound:
  "nat (int (length p) - j) + nat (int (length s) - i) < d \<Longrightarrow>
   RegexFSM_match d s i p j \<noteq> Some (Inl RecursionError)"
proof (induction d arbitrary: i j)
  case 0
  then show ?case by simp
next
  case (Suc d)
  show ?case
  proof (cases "j = int (length p)")
    case True
    then show ?thesis by (simp add: match_at_end)
  next
    case False
    show ?thesis
    proof (cases "\<exists>niq char fm. next_is_quant p j = Inr niq \<and> py_index p j = Inr char \<and>
        first_match s i char = Inr fm")
      case raises: False
      show ?thesis
        apply (subst RegexFSM_match.simps)
        using False raises
        by (auto split: sum.splits dest: py_index_error next_is_quant_error first_match_error)
    next
      case True
      then obtain niq char fm where
        niq: "next_is_quant p j = Inr niq" and char: "py_index p j = Inr char" and
        fm: "first_match s i char = Inr fm"
        by blast
      have jlt: "j < int (length p)" using char by (rule py_index_Inr_less)
      have ilt: "i < int (length s)" if fm
        using first_match_True_less[of s i char] fm that by simp
      have "nat (int (length p) - (j + 2)) + nat (int (length s) - i) < d"
        using jlt Suc.prems by linarith
      from Suc.IH[OF this] have n1: "RegexFSM_match d s i p (j + 2) \<noteq> Some (Inl RecursionError)" .
      obtain r1 where r1: "RegexFSM_match d s i p (j + 2) = Some r1"
        using match_total by blast
      have e1: "r1 \<noteq> Inl RecursionError" using n1 r1 by simp
      show ?thesis
      proof (cases fm)
        case True
        have m2: "nat (int (length p) - j) + nat (int (length s) - (i + 1)) < d"
          using ilt[OF True] Suc.prems by linarith
        have m3: "nat (int (length p) - (j + 2)) + nat (int (length s) - (i + 1)) < d"
          using ilt[OF True] jlt Suc.prems by linarith
        have m4: "nat (int (length p) - (j + 1)) + nat (int (length s) - (i + 1)) < d"
          using ilt[OF True] jlt Suc.prems by linarith
        obtain r2 where r2: "RegexFSM_match d s (i + 1) p j = Some r2"
          using match_total by blast
        obtain r3 where r3: "RegexFSM_match d s (i + 1) p (j + 2) = Some r3"
          using match_total by blast
        obtain r4 where r4: "RegexFSM_match d s (i + 1) p (j + 1) = Some r4"
          using match_total by blast
        have e2: "r2 \<noteq> Inl RecursionError" using Suc.IH[OF m2] r2 by simp
        have e3: "r3 \<noteq> Inl RecursionError" using Suc.IH[OF m3] r3 by simp
        have e4: "r4 \<noteq> Inl RecursionError" using Suc.IH[OF m4] r4 by simp
        show ?thesis
          apply (subst RegexFSM_match.simps)
          using False niq char fm True r1 r2 r3 r4 e1 e2 e3 e4
          by (auto split: sum.splits dest: py_index_error)
      next
        case nofm: False
        show ?thesis
          apply (subst RegexFSM_match.simps)
          using False niq char fm nofm r1 e1
          by (auto split: sum.splits dest: py_index_error)
      qed
    qed
  qed
qed

lemma match_refines:
  assumes "i \<le> length s" and "j \<le> length p"
  shows "verdict_or_overflow (RegexFSM_match d s (int i) p (int j))
           (match_suffix (drop i s) (drop j p))"
  using match_refines_app[of d "take i s" "drop i s" "take j p" "drop j p"] assms
  by (simp add: min.absorb2)

lemma match_enough_frames:
  assumes "i \<le> length s" and "j \<le> length p"
    and "length p - j + (length s - i) < d"
  shows "RegexFSM_match d s (int i) p (int j) = Some (Inr (match_suffix (drop i s) (drop j p)))"
proof -
  have "nat (int (length p) - int j) + nat (int (length s) - int i) < d"
    using assms by linarith
  then have "RegexFSM_match d s (int i) p (int j) \<noteq> Some (Inl RecursionError)"
    by (rule match_depth_bound)
  then show ?thesis
    using match_refines[OF assms(1,2), of d] by (simp add: verdict_or_overflow_def)
qed

lemma check_string_cases:
  "verdict_or_overflow (RegexFSM_check_string d self input_str)
     (match_suffix input_str (regex_expr self))"
proof (cases d)
  case 0
  then show ?thesis by (simp add: RegexFSM_check_string_def verdict_or_overflow_def)
next
  case (Suc d')
  then show ?thesis
    using match_refines[of 0 input_str 0 "regex_expr self" d']
    by (simp add: RegexFSM_check_string_def)
qed

lemma check_string_suffix:
  assumes "length (regex_expr self) + length input_str + 2 \<le> d"
  shows "RegexFSM_check_string d self input_str =
           Some (Inr (match_suffix input_str (regex_expr self)))"
proof -
  obtain d' where d: "d = Suc d'" using assms by (cases d) simp_all
  have "length (regex_expr self) - 0 + (length input_str - 0) < d'"
    using assms d by simp
  from match_enough_frames[OF _ _ this] show ?thesis
    by (simp add: RegexFSM_check_string_def d)
qed

lemma match_in_range:
  assumes "0 \<le> i" "i \<le> int (length s)" "0 \<le> j" "j \<le> int (length p)"
  shows "verdict_or_overflow (RegexFSM_match d s i p j)
           (match_suffix (drop (nat i) s) (drop (nat j) p))"
  using match_refines[of "nat i" s "nat j" p d] assms by simp

lemma match_in_range_enough:
  assumes "0 \<le> i" "i \<le> int (length s)" "0 \<le> j" "j \<le> int (length p)"
    and "int (length p) - j + (int (length s) - i) < int d"
  shows "RegexFSM_match d s i p j = Some (Inr (match_suffix (drop (nat i) s) (drop (nat j) p)))"
proof -
  have "length p - nat j + (length s - nat i) < d" using assms by linarith
  from match_enough_frames[of "nat i" s "nat j" p d, OF _ _ this] assms show ?thesis by simp
qed

text \<open>
  Outside the strings the model raises, as the program does: a pattern cursor beyond the end
  of the pattern, and an input cursor too far before the start of the input.
\<close>

lemma match_past_pattern: "RegexFSM_match 1000 ''meow'' 0 ''ab'' 5 = Some (Inl IndexError)"
  by (subst RegexFSM_match.simps) (simp add: next_is_quant_def py_index_def)

lemma match_before_input: "RegexFSM_match 1000 ''meow'' (- 5) ''ab'' 0 = Some (Inl IndexError)"
  by (subst RegexFSM_match.simps) (simp add: next_is_quant_def first_match_def py_index_def)

text \<open>
  Repeating one character under \<open>*\<close> nests one frame per character of the input: with no
  more frames than the input has characters, plus one, the call runs out of frames.
\<close>

lemma star_chain_overflow:
  assumes "\<forall>x \<in> set s2. x = c" and "d \<le> length s2 + 1"
  shows "RegexFSM_match d (s1 @ s2) (int (length s1)) [c, CHR ''*''] 0 =
           Some (Inl RecursionError)"
  using assms
proof (induction d arbitrary: s1 s2)
  case 0
  show ?case by (simp add: match_no_frame)
next
  case (Suc d)
  have niq: "next_is_quant [c, CHR ''*''] 0 = Inr True"
    using next_is_quant_nat[of "[c, CHR ''*'']" 0] by simp
  have char: "py_index [c, CHR ''*''] 0 = Inr c"
    using py_index_nat[of "[c, CHR ''*'']" 0] by simp
  have pq: "py_index [c, CHR ''*''] (0 + 1) = Inr (CHR ''*'')"
    using py_index_nat[of "[c, CHR ''*'']" 1] by simp
  show ?case
  proof (cases d)
    case 0
    have "RegexFSM_match 0 (s1 @ s2) (int (length s1)) [c, CHR ''*''] (0 + 2) =
        Some (Inl RecursionError)"
      by (rule match_no_frame)
    then show ?thesis
      unfolding 0
      apply (subst RegexFSM_match.simps)
      using niq char pq first_match_nat[of "s1 @ s2" "length s1" c]
      by simp
  next
    case d: (Suc d')
    obtain x s' where s2: "s2 = x # s'"
      using Suc.prems(2) d by (cases s2) simp_all
    have x: "x = c" using Suc.prems(1) s2 by simp
    have c1: "RegexFSM_match d (s1 @ s2) (int (length s1)) [c, CHR ''*''] (0 + 2) =
        Some (Inr False)"
      unfolding d using match_at_end[of d' "s1 @ s2" "int (length s1)" "[c, CHR ''*'']"] s2
      by simp
    have "RegexFSM_match d ((s1 @ [x]) @ s') (int (length (s1 @ [x]))) [c, CHR ''*''] 0 =
        Some (Inl RecursionError)"
      using Suc.prems s2 by (intro Suc.IH) simp_all
    then have c2: "RegexFSM_match d (s1 @ s2) (int (length s1) + 1) [c, CHR ''*''] 0 =
        Some (Inl RecursionError)"
      by (simp add: s2 add.commute)
    show ?thesis
      apply (subst RegexFSM_match.simps)
      using niq char pq c1 c2 first_match_nat[of "s1 @ s2" "length s1" c] s2 x
      by simp
  qed
qed

lemma check_string_overflow:
  assumes "\<forall>x \<in> set s. x = c" and "d \<le> length s + 2"
  shows "RegexFSM_check_string d \<lparr>regex_expr = [c, CHR ''*'']\<rparr> s = Some (Inl RecursionError)"
proof (cases d)
  case 0
  then show ?thesis by (simp add: RegexFSM_check_string_def)
next
  case (Suc d')
  then have "d' \<le> length s + 1" using assms(2) by simp
  from star_chain_overflow[OF assms(1) this, of "[]"] show ?thesis
    by (simp add: RegexFSM_check_string_def Suc)
qed

subsection \<open>The matcher decides the language of the pattern\<close>

lemma single_lang:
  "s \<in> spec_pattern_lang (Single a # es) \<longleftrightarrow>
     (\<exists>x s'. s = x # s' \<and> atom_accepts a x \<and> s' \<in> spec_pattern_lang es)"
proof
  assume "s \<in> spec_pattern_lang (Single a # es)"
  then show "\<exists>x s'. s = x # s' \<and> atom_accepts a x \<and> s' \<in> spec_pattern_lang es"
    by auto
next
  assume "\<exists>x s'. s = x # s' \<and> atom_accepts a x \<and> s' \<in> spec_pattern_lang es"
  then obtain x s' where "s = [x] @ s'" "atom_accepts a x" "s' \<in> spec_pattern_lang es"
    by auto
  then show "s \<in> spec_pattern_lang (Single a # es)"
    unfolding spec_pattern_lang.simps spec_element_lang.simps by blast
qed

lemma star_lang:
  "s \<in> spec_pattern_lang (ZeroOrMore a # es) \<longleftrightarrow>
     s \<in> spec_pattern_lang es \<or>
     (\<exists>x s'. s = x # s' \<and> atom_accepts a x \<and> s' \<in> spec_pattern_lang (ZeroOrMore a # es))"
proof
  assume "s \<in> spec_pattern_lang (ZeroOrMore a # es)"
  then obtain u v where s: "s = u @ v" and u: "\<forall>x \<in> set u. atom_accepts a x"
    and v: "v \<in> spec_pattern_lang es"
    by auto
  show "s \<in> spec_pattern_lang es \<or>
     (\<exists>x s'. s = x # s' \<and> atom_accepts a x \<and> s' \<in> spec_pattern_lang (ZeroOrMore a # es))"
  proof (cases u)
    case Nil
    then show ?thesis using s v by simp
  next
    case (Cons x u')
    then have "u' @ v \<in> spec_pattern_lang (ZeroOrMore a # es)" using u v by auto
    then show ?thesis using Cons s u by auto
  qed
next
  assume "s \<in> spec_pattern_lang es \<or>
     (\<exists>x s'. s = x # s' \<and> atom_accepts a x \<and> s' \<in> spec_pattern_lang (ZeroOrMore a # es))"
  then show "s \<in> spec_pattern_lang (ZeroOrMore a # es)"
  proof
    assume "s \<in> spec_pattern_lang es"
    then have "[] @ s \<in> spec_pattern_lang (ZeroOrMore a # es)"
      by (simp del: append_Nil) (metis append_Nil empty_iff empty_set)
    then show ?thesis by simp
  next
    assume "\<exists>x s'. s = x # s' \<and> atom_accepts a x \<and> s' \<in> spec_pattern_lang (ZeroOrMore a # es)"
    then obtain x u v where "s = x # u @ v" "atom_accepts a x" "\<forall>y \<in> set u. atom_accepts a y"
      "v \<in> spec_pattern_lang es"
      by auto
    then have "s = (x # u) @ v \<and> (\<forall>y \<in> set (x # u). atom_accepts a y) \<and> v \<in> spec_pattern_lang es"
      by simp
    then show ?thesis unfolding spec_pattern_lang.simps spec_element_lang.simps by blast
  qed
qed

lemma plus_lang:
  "s \<in> spec_pattern_lang (OneOrMore a # es) \<longleftrightarrow>
     (\<exists>x s'. s = x # s' \<and> atom_accepts a x \<and> s' \<in> spec_pattern_lang (ZeroOrMore a # es))"
proof
  assume "s \<in> spec_pattern_lang (OneOrMore a # es)"
  then obtain u v where s: "s = u @ v" and u: "u \<noteq> []" "\<forall>x \<in> set u. atom_accepts a x"
    and v: "v \<in> spec_pattern_lang es"
    by auto
  then obtain x u' where "u = x # u'" by (cases u) auto
  then show "\<exists>x s'. s = x # s' \<and> atom_accepts a x \<and> s' \<in> spec_pattern_lang (ZeroOrMore a # es)"
    using s u v by auto
next
  assume "\<exists>x s'. s = x # s' \<and> atom_accepts a x \<and> s' \<in> spec_pattern_lang (ZeroOrMore a # es)"
  then obtain x u v where "s = x # u @ v" "atom_accepts a x" "\<forall>y \<in> set u. atom_accepts a y"
    "v \<in> spec_pattern_lang es"
    by auto
  then have "s = (x # u) @ v \<and> x # u \<noteq> [] \<and> (\<forall>y \<in> set (x # u). atom_accepts a y) \<and>
      v \<in> spec_pattern_lang es"
    by simp
  then show "s \<in> spec_pattern_lang (OneOrMore a # es)"
    unfolding spec_pattern_lang.simps spec_element_lang.simps by blast
qed

lemma atom_of_accepts: "atom_accepts (atom_of c) x \<longleftrightarrow> (c = x \<or> c = CHR ''.'')"
  by (auto simp add: atom_of_def)



lemma star_plus_lang:
  "s \<in> spec_pattern_lang (ZeroOrMore a # es) \<longleftrightarrow>
     s \<in> spec_pattern_lang (OneOrMore a # es) \<or> s \<in> spec_pattern_lang es"
  using star_lang[of s a es] plus_lang[of s a es] by blast

lemma match_suffix_lang: "match_suffix s p \<longleftrightarrow> s \<in> spec_pattern_lang (spec_elements p)"
proof (induction s p rule: match_suffix.induct)
  case (1 s)
  show ?case by (simp add: match_suffix.simps)
next
  case (2 s c)
  have "match_suffix s [c] \<longleftrightarrow> (\<exists>x s'. s = x # s' \<and> (c = x \<or> c = CHR ''.'') \<and> s' = [])"
    by (subst match_suffix.simps) (auto simp add: match_suffix.simps(1) split: list.splits)
  also have "\<dots> \<longleftrightarrow> s \<in> spec_pattern_lang [Single (atom_of c)]"
    unfolding single_lang atom_of_accepts by simp
  finally show ?case by simp
next
  case (3 s c q r)
  let ?a = "atom_of c"
  let ?fm = "\<lambda>x. c = x \<or> c = CHR ''.''"
  consider (star) "q = CHR ''*''" | (plus) "q = CHR ''+''" | (none) "q \<noteq> CHR ''*''" "q \<noteq> CHR ''+''"
    by blast
  then show ?case
  proof cases
    case star
    have el: "spec_elements (c # q # r) = ZeroOrMore ?a # spec_elements r"
      using star by simp
    have "match_suffix s (c # q # r) \<longleftrightarrow>
            match_suffix s r \<or> (\<exists>x s'. s = x # s' \<and> ?fm x \<and> match_suffix s' (c # q # r))"
      by (subst match_suffix.simps) (auto simp add: star split: list.splits)
    also have "\<dots> \<longleftrightarrow> s \<in> spec_pattern_lang (spec_elements r) \<or>
            (\<exists>x s'. s = x # s' \<and> atom_accepts ?a x \<and> s' \<in> spec_pattern_lang (ZeroOrMore ?a # spec_elements r))"
      using "3.IH"(1)[OF star] "3.IH"(2)[OF star] unfolding el atom_of_accepts by blast
    also have "\<dots> \<longleftrightarrow> s \<in> spec_pattern_lang (ZeroOrMore ?a # spec_elements r)"
      by (rule star_lang[symmetric])
    finally show ?thesis unfolding el .
  next
    case plus
    then have ns: "q \<noteq> CHR ''*''" by simp
    have el: "spec_elements (c # q # r) = OneOrMore ?a # spec_elements r"
      using plus by simp
    have "match_suffix s (c # q # r) \<longleftrightarrow>
            (\<exists>x s'. s = x # s' \<and> ?fm x \<and> (match_suffix s' (c # q # r) \<or> match_suffix s' r))"
      by (subst match_suffix.simps) (auto simp add: plus split: list.splits)
    also have "\<dots> \<longleftrightarrow>
            (\<exists>x s'. s = x # s' \<and> atom_accepts ?a x \<and>
               (s' \<in> spec_pattern_lang (OneOrMore ?a # spec_elements r) \<or> s' \<in> spec_pattern_lang (spec_elements r)))"
      using "3.IH"(3)[OF ns plus] "3.IH"(4)[OF ns plus] unfolding el atom_of_accepts by blast
    also have "\<dots> \<longleftrightarrow> s \<in> spec_pattern_lang (OneOrMore ?a # spec_elements r)"
      unfolding star_plus_lang[symmetric] by (rule plus_lang[symmetric])
    finally show ?thesis unfolding el .
  next
    case none
    have el: "spec_elements (c # q # r) = Single ?a # spec_elements (q # r)"
      using none by simp
    have "match_suffix s (c # q # r) \<longleftrightarrow>
            (\<exists>x s'. s = x # s' \<and> ?fm x \<and> match_suffix s' (q # r))"
      by (subst match_suffix.simps) (auto simp add: none split: list.splits)
    also have "\<dots> \<longleftrightarrow>
            (\<exists>x s'. s = x # s' \<and> atom_accepts ?a x \<and> s' \<in> spec_pattern_lang (spec_elements (q # r)))"
      using "3.IH"(5)[OF none] unfolding atom_of_accepts by blast
    also have "\<dots> \<longleftrightarrow> s \<in> spec_pattern_lang (Single ?a # spec_elements (q # r))"
      by (rule single_lang[symmetric])
    finally show ?thesis unfolding el .
  qed
qed

lemma check_string_lang_cases:
  "verdict_or_overflow (RegexFSM_check_string d \<lparr>regex_expr = p\<rparr> s) (spec_fully_matches p s)"
  using check_string_cases[of d "\<lparr>regex_expr = p\<rparr>" s]
  by (simp add: match_suffix_lang spec_fully_matches_def)

lemma check_string_lang:
  assumes "length p + length s + 2 \<le> d"
  shows "RegexFSM_check_string d \<lparr>regex_expr = p\<rparr> s = Some (Inr (spec_fully_matches p s))"
  using check_string_suffix[of "\<lparr>regex_expr = p\<rparr>" s d] assms
  by (simp add: match_suffix_lang spec_fully_matches_def)

lemma fully_matches_suffix: "spec_fully_matches p s = match_suffix s p"
  by (simp add: match_suffix_lang spec_fully_matches_def)

section \<open>Properties of compilation\<close>

lemma init_next_state_result:
  "snd (RegexFSM_init_next_state c prev tmp h) =
     (if isascii c then Inr (length h)
      else Inl (AttributeError ''Character is not supported''))"
  by (simp add: RegexFSM_init_next_state_def isascii_def new_DotState_def new_StarState_def
      new_PlusState_def new_AsciiState_def alloc_def)

lemma init_loop_ok:
  "\<forall>c \<in> set cs. isascii c \<Longrightarrow> \<exists>h' a. RegexFSM_init_loop cs prev tmp h = (h', Inr a)"
proof (induction cs arbitrary: tmp h)
  case Nil
  show ?case by simp
next
  case (Cons c cs)
  obtain h1 r where step: "RegexFSM_init_next_state c prev tmp h = (h1, r)"
    by (cases "RegexFSM_init_next_state c prev tmp h")
  then have "r = Inr (length h)"
    using init_next_state_result[of c prev tmp h] Cons.prems by simp
  then show ?case
    using step Cons.IH[of "length h" "append_next h1 prev (length h)"] Cons.prems by simp
qed

lemma init_loop_raises:
  "\<exists>c \<in> set cs. \<not> isascii c \<Longrightarrow>
     \<exists>h'. RegexFSM_init_loop cs prev tmp h = (h', Inl (AttributeError ''Character is not supported''))"
proof (induction cs arbitrary: tmp h)
  case Nil
  then show ?case by simp
next
  case (Cons c cs)
  obtain h1 r where step: "RegexFSM_init_next_state c prev tmp h = (h1, r)"
    by (cases "RegexFSM_init_next_state c prev tmp h")
  show ?case
  proof (cases "isascii c")
    case True
    then have "r = Inr (length h)"
      using init_next_state_result[of c prev tmp h] step by simp
    moreover have "\<exists>c \<in> set cs. \<not> isascii c" using Cons.prems True by auto
    ultimately show ?thesis
      using step Cons.IH[of "length h" "append_next h1 prev (length h)"] by simp
  next
    case False
    then have "r = Inl (AttributeError ''Character is not supported'')"
      using init_next_state_result[of c prev tmp h] step by simp
    then show ?thesis using step by simp
  qed
qed

lemma init_result:
  "snd (RegexFSM_init p h) =
     (if \<forall>c \<in> set p. isascii c then Inr \<lparr>regex_expr = p\<rparr>
      else Inl (AttributeError ''Character is not supported''))"
proof (cases "\<forall>c \<in> set p. isascii c")
  case True
  from init_loop_ok[OF True] obtain h' a where
    "RegexFSM_init_loop p RegexFSM_curr_state RegexFSM_curr_state h = (h', Inr a)"
    by blast
  then show ?thesis using True by (simp add: RegexFSM_init_def split: prod.splits)
next
  case False
  then have "\<exists>c \<in> set p. \<not> isascii c" by simp
  from init_loop_raises[OF this] obtain h' where
    "RegexFSM_init_loop p RegexFSM_curr_state RegexFSM_curr_state h =
       (h', Inl (AttributeError ''Character is not supported''))"
    by blast
  then show ?thesis using False by (simp add: RegexFSM_init_def)
qed

lemma init_ok:
  assumes "\<forall>c \<in> set p. isascii c"
  shows "\<exists>h'. RegexFSM_init p h = (h', Inr \<lparr>regex_expr = p\<rparr>)"
proof -
  have "snd (RegexFSM_init p h) = Inr \<lparr>regex_expr = p\<rparr>"
    using assms by (simp add: init_result)
  then have "RegexFSM_init p h = (fst (RegexFSM_init p h), Inr \<lparr>regex_expr = p\<rparr>)"
    by (metis prod.collapse)
  then show ?thesis by blast
qed

lemma init_Inr:
  assumes "RegexFSM_init p h = (h', Inr fsm)"
  shows "fsm = \<lparr>regex_expr = p\<rparr>"
  using init_result[of p h] assms by (auto split: if_splits)

lemma init_Inr_ascii:
  assumes "RegexFSM_init p h = (h', Inr fsm)"
  shows "\<forall>c \<in> set p. isascii c"
  using init_result[of p h] assms by (auto split: if_splits)

subsection \<open>What compilation does to the heap\<close>

text \<open>
  Every compilation that succeeds appends the addresses of the states it creates, one per
  character and one \<open>TerminationState\<close>, to the \<open>next_states\<close> of the start state of
  the class.
\<close>

lemma init_next_state_heap:
  assumes "isascii c"
  shows "\<exists>obj. RegexFSM_init_next_state c prev tmp h = (h @ [obj], Inr (length h))"
  using assms
  by (simp add: RegexFSM_init_next_state_def new_DotState_def new_StarState_def
      new_PlusState_def new_AsciiState_def alloc_def)

lemma append_next_state:
  assumes "a < length h"
  shows "length (append_next h a x) = length h"
    and "next_states (append_next h a x ! a) = next_states (h ! a) @ [x]"
  using assms by (simp_all add: append_next_def)

lemma init_loop_heap:
  assumes "prev < length h" and "\<forall>c \<in> set cs. isascii c"
  shows "\<exists>h' tmp'. RegexFSM_init_loop cs prev tmp h = (h', Inr tmp') \<and>
           length h' = length h + length cs \<and>
           next_states (h' ! prev) = next_states (h ! prev) @ [length h ..< length h + length cs]"
  using assms
proof (induction cs arbitrary: tmp h)
  case Nil
  show ?case by simp
next
  case (Cons c cs)
  have c: "isascii c" and cs: "\<forall>c \<in> set cs. isascii c"
    using Cons.prems(2) by simp_all
  from init_next_state_heap[OF c] obtain obj where
    step: "RegexFSM_init_next_state c prev tmp h = (h @ [obj], Inr (length h))"
    by blast
  define h1 where "h1 = append_next (h @ [obj]) prev (length h)"
  have prev1: "prev < length (h @ [obj])" using Cons.prems(1) by simp
  have len1: "length h1 = Suc (length h)"
    unfolding h1_def using append_next_state(1)[OF prev1] by simp
  have ns1: "next_states (h1 ! prev) = next_states (h ! prev) @ [length h]"
    unfolding h1_def using append_next_state(2)[OF prev1, of "length h"] Cons.prems(1)
    by (simp add: nth_append)
  have "prev < length h1" using len1 Cons.prems(1) by simp
  from Cons.IH[OF this cs, of "length h"] obtain h' tmp' where
    loop: "RegexFSM_init_loop cs prev (length h) h1 = (h', Inr tmp')" and
    len: "length h' = length h1 + length cs" and
    ns: "next_states (h' ! prev) = next_states (h1 ! prev) @ [length h1 ..< length h1 + length cs]"
    by blast
  have "RegexFSM_init_loop (c # cs) prev tmp h = (h', Inr tmp')"
    using step loop by (simp add: h1_def)
  moreover have "length h' = length h + length (c # cs)"
    using len len1 by simp
  moreover have "next_states (h' ! prev) =
      next_states (h ! prev) @ [length h ..< length h + length (c # cs)]"
  proof -
    have "[length h ..< length h + length (c # cs)] =
        length h # [length h1 ..< length h1 + length cs]"
      unfolding len1 using upt_conv_Cons[of "length h" "length h + length (c # cs)"]
      by (simp del: upt_Suc)
    then show ?thesis
      by (simp only: ns ns1 append_assoc append_Cons append_Nil)
  qed
  ultimately show ?case by blast
qed

lemma init_extends_start_state:
  assumes "h \<noteq> []" and "RegexFSM_init p h = (h', Inr fsm)"
  shows "next_states (h' ! RegexFSM_curr_state) =
           next_states (h ! RegexFSM_curr_state) @ [length h ..< length h + length p + 1]"
proof -
  have ascii: "\<forall>c \<in> set p. isascii c" using assms(2) by (rule init_Inr_ascii)
  have z: "RegexFSM_curr_state < length h" using assms(1) by (simp add: RegexFSM_curr_state_def)
  from init_loop_heap[OF z ascii, of RegexFSM_curr_state] obtain h1 tmp' where
    loop: "RegexFSM_init_loop p RegexFSM_curr_state RegexFSM_curr_state h = (h1, Inr tmp')" and
    len: "length h1 = length h + length p" and
    ns: "next_states (h1 ! RegexFSM_curr_state) =
           next_states (h ! RegexFSM_curr_state) @ [length h ..< length h + length p]"
    by blast
  define t where "t = \<lparr>kind = TerminationState, next_states = []\<rparr>"
  have z1: "RegexFSM_curr_state < length (h1 @ [t])" using z len by simp
  have h': "h' = append_next (h1 @ [t]) RegexFSM_curr_state (length h1)"
    using assms(2) loop
    by (simp add: RegexFSM_init_def new_TerminationState_def alloc_def t_def)
  have "next_states (h' ! RegexFSM_curr_state) =
          next_states ((h1 @ [t]) ! RegexFSM_curr_state) @ [length h1]"
    unfolding h' by (rule append_next_state(2)[OF z1])
  also have "(h1 @ [t]) ! RegexFSM_curr_state = h1 ! RegexFSM_curr_state"
    using z len by (simp add: nth_append)
  finally have "next_states (h' ! RegexFSM_curr_state) =
      (next_states (h ! RegexFSM_curr_state) @ [length h ..< length h + length p]) @
        [length h + length p]"
    unfolding ns len .
  then show ?thesis
    by (simp del: upt_Suc add: upt_Suc_append)
qed

section \<open>Steps of the matcher at a cursor inside the strings\<close>

lemma star_step_frames:
  assumes i: "0 \<le> i" "i \<le> int (length s)" and j: "0 \<le> j" "j + 1 < int (length p)"
    and q: "p ! nat (j + 1) = CHR ''*''"
  shows "RegexFSM_match (Suc d) s i p j =
           (if RegexFSM_match d s i p (j + 2) = Some (Inr True) then Some (Inr True)
            else if RegexFSM_match d s i p (j + 2) = Some (Inl RecursionError)
              then Some (Inl RecursionError)
            else if first_match s i (p ! nat j) = Inr True then RegexFSM_match d s (i + 1) p j
            else Some (Inr False))"
proof -
  have c1: "RegexFSM_match d s i p (j + 2) = Some (Inl RecursionError) \<or>
      (\<exists>b. RegexFSM_match d s i p (j + 2) = Some (Inr b))"
    using match_in_range[of i s "j + 2" p d] i j by (auto simp add: verdict_or_overflow_def)
  obtain r2 where r2: "RegexFSM_match d s (i + 1) p j = Some r2"
    using match_total by blast
  have niq: "next_is_quant p j = Inr True"
    using j q by (simp add: next_is_quant_in_range)
  have char: "py_index p j = Inr (p ! nat j)"
    using j by (simp add: py_index_in_range)
  have pq: "py_index p (j + 1) = Inr (CHR ''*'')"
    using j q by (simp add: py_index_in_range)
  have fm: "first_match s i (p ! nat j) =
      Inr (i < int (length s) \<and> (p ! nat j = s ! nat i \<or> p ! nat j = CHR ''.''))"
    using i by (simp add: first_match_in_range)
  have jn: "j \<noteq> int (length p)" using j by simp
  show ?thesis
    using RegexFSM_match.simps[of "Suc d" s i p j] c1 r2 niq char pq fm jn
    by (auto split: sum.splits)
qed

lemma star_step:
  assumes i: "0 \<le> i" "i \<le> int (length s)" and j: "0 \<le> j" "j + 1 < int (length p)"
    and q: "p ! nat (j + 1) = CHR ''*''"
    and d: "int (length p) - j + (int (length s) - i) \<le> int d"
  shows "RegexFSM_match (Suc d) s i p j =
           (if RegexFSM_match d s i p (j + 2) = Some (Inr True) then Some (Inr True)
            else if first_match s i (p ! nat j) = Inr True then RegexFSM_match d s (i + 1) p j
            else Some (Inr False))"
proof -
  have "nat (int (length p) - (j + 2)) + nat (int (length s) - i) < d"
    using i j d by linarith
  then have "RegexFSM_match d s i p (j + 2) \<noteq> Some (Inl RecursionError)"
    by (rule match_depth_bound)
  then show ?thesis
    using star_step_frames[OF i j q, of d] by simp
qed

lemma plus_step_frames:
  assumes i: "0 \<le> i" "i \<le> int (length s)" and j: "0 \<le> j" "j + 1 < int (length p)"
    and q: "p ! nat (j + 1) = CHR ''+''"
  shows "RegexFSM_match (Suc d) s i p j =
           (if first_match s i (p ! nat j) \<noteq> Inr True then Some (Inr False)
            else if RegexFSM_match d s (i + 1) p j = Some (Inr False)
              then RegexFSM_match d s (i + 1) p (j + 2)
            else RegexFSM_match d s (i + 1) p j)"
proof -
  obtain r2 where r2: "RegexFSM_match d s (i + 1) p j = Some r2"
    using match_total by blast
  have niq: "next_is_quant p j = Inr True"
    using j q by (simp add: next_is_quant_in_range)
  have char: "py_index p j = Inr (p ! nat j)"
    using j by (simp add: py_index_in_range)
  have pq: "py_index p (j + 1) = Inr (CHR ''+'')"
    using j q by (simp add: py_index_in_range)
  have fm: "first_match s i (p ! nat j) =
      Inr (i < int (length s) \<and> (p ! nat j = s ! nat i \<or> p ! nat j = CHR ''.''))"
    using i by (simp add: first_match_in_range)
  have jn: "j \<noteq> int (length p)" using j by simp
  show ?thesis
    using RegexFSM_match.simps[of "Suc d" s i p j] r2 niq char pq fm jn
    by (auto split: sum.splits)
qed

lemma plus_step:
  assumes i: "0 \<le> i" "i \<le> int (length s)" and j: "0 \<le> j" "j + 1 < int (length p)"
    and q: "p ! nat (j + 1) = CHR ''+''"
    and d: "int (length p) - j + (int (length s) - i) \<le> int d"
  shows "RegexFSM_match (Suc d) s i p j =
           Some (Inr (first_match s i (p ! nat j) = Inr True \<and>
             (RegexFSM_match d s (i + 1) p j = Some (Inr True) \<or>
              RegexFSM_match d s (i + 1) p (j + 2) = Some (Inr True))))"
proof (cases "first_match s i (p ! nat j) = Inr True")
  case False
  then show ?thesis using plus_step_frames[OF i j q, of d] by simp
next
  case True
  then have ilt: "i < int (length s)" by (rule first_match_True_less)
  have "int (length p) - j + (int (length s) - (i + 1)) < int d" using d by linarith
  from match_in_range_enough[OF _ _ _ _ this] obtain b2 where
    b2: "RegexFSM_match d s (i + 1) p j = Some (Inr b2)"
    using i j ilt by auto
  have "int (length p) - (j + 2) + (int (length s) - (i + 1)) < int d" using d by linarith
  from match_in_range_enough[OF _ _ _ _ this] obtain b3 where
    b3: "RegexFSM_match d s (i + 1) p (j + 2) = Some (Inr b3)"
    using i j ilt by auto
  show ?thesis
    using plus_step_frames[OF i j q, of d] True b2 b3 by auto
qed

lemma literal_step:
  assumes i: "0 \<le> i" and j: "0 \<le> j" "j < int (length p)"
    and c: "p ! nat j \<noteq> CHR ''.''" and niq: "next_is_quant p j = Inr False"
  shows "RegexFSM_match (Suc d) s i p j =
           (if i < int (length s) \<and> s ! nat i = p ! nat j
            then RegexFSM_match d s (i + 1) p (j + 1)
            else Some (Inr False))"
proof -
  have char: "py_index p j = Inr (p ! nat j)"
    using j by (simp add: py_index_in_range)
  have fm: "first_match s i (p ! nat j) =
      Inr (i < int (length s) \<and> (p ! nat j = s ! nat i \<or> p ! nat j = CHR ''.''))"
    using i by (simp add: first_match_in_range)
  have jn: "j \<noteq> int (length p)" using j by simp
  show ?thesis
    using RegexFSM_match.simps[of "Suc d" s i p j] niq char fm jn c by auto
qed

subsection \<open>Patterns without quantifiers\<close>

lemma match_suffix_unquantified:
  assumes "r = [] \<or> (hd r \<noteq> CHR ''*'' \<and> hd r \<noteq> CHR ''+'')"
  shows "match_suffix s (c # r) =
           (case s of [] \<Rightarrow> False | x # s' \<Rightarrow> (c = x \<or> c = CHR ''.'') \<and> match_suffix s' r)"
  using assms by (cases r; cases s) (simp_all add: match_suffix.simps)


lemma unquantified_depth:
  assumes "\<forall>c \<in> set (tl p2). c \<noteq> CHR ''*'' \<and> c \<noteq> CHR ''+''" and "length p2 < d"
  shows "RegexFSM_match d (s1 @ s2) (int (length s1)) (p1 @ p2) (int (length p1)) \<noteq>
           Some (Inl RecursionError)"
  using assms
proof (induction p2 arbitrary: d s1 s2 p1)
  case Nil
  then obtain d' where "d = Suc d'" by (cases d) simp_all
  then show ?case using match_at_end[of d' "s1 @ s2" "int (length s1)" p1] by simp
next
  case (Cons c r)
  from Cons.prems(2) obtain d' where d: "d = Suc d'" and d': "length r < d'"
    by (cases d) simp_all
  have niq: "next_is_quant (p1 @ c # r) (int (length p1)) = Inr False"
    using Cons.prems(1) by (cases r) (simp_all add: next_is_quant_nat nth_append)
  have char: "py_index (p1 @ c # r) (int (length p1)) = Inr c"
    by (simp add: py_index_nat)
  show ?case
  proof (cases s2)
    case Nil
    show ?thesis
      unfolding d Nil
      apply (subst RegexFSM_match.simps)
      using niq char
      by (simp add: first_match_nat)
  next
    case s2: (Cons x s')
    have "\<forall>c \<in> set (tl r). c \<noteq> CHR ''*'' \<and> c \<noteq> CHR ''+''"
      using Cons.prems(1) by (cases r) simp_all
    from Cons.IH[OF this d', of "s1 @ [x]" s' "p1 @ [c]"]
    have "RegexFSM_match d' (s1 @ x # s') (int (length s1) + 1) (p1 @ c # r)
        (int (length p1) + 1) \<noteq> Some (Inl RecursionError)"
      by (simp add: add.commute)
    then show ?thesis
      unfolding d s2
      apply (subst RegexFSM_match.simps)
      using niq char
      by (simp add: first_match_nat)
  qed
qed

lemma check_string_unquantified:
  assumes "\<forall>c \<in> set (tl p). c \<noteq> CHR ''*'' \<and> c \<noteq> CHR ''+''" and "length p + 2 \<le> d"
  shows "RegexFSM_check_string d \<lparr>regex_expr = p\<rparr> s = Some (Inr (match_suffix s p))"
proof -
  obtain d' where d: "d = Suc d'" and d': "length p < d'"
    using assms(2) by (cases d) simp_all
  have "RegexFSM_match d' s 0 p 0 \<noteq> Some (Inl RecursionError)"
    using unquantified_depth[OF assms(1) d', of "[]" s "[]"] by simp
  then show ?thesis
    using check_string_cases[of d "\<lparr>regex_expr = p\<rparr>" s]
    by (simp add: verdict_or_overflow_def RegexFSM_check_string_def d)
qed


lemma check_string_single:
  assumes "3 \<le> d"
  shows "RegexFSM_check_string d \<lparr>regex_expr = [c]\<rparr> s =
           Some (Inr (\<exists>x. s = [x] \<and> (c = x \<or> c = CHR ''.'')))"
proof -
  have "RegexFSM_check_string d \<lparr>regex_expr = [c]\<rparr> s = Some (Inr (match_suffix s [c]))"
    using assms by (intro check_string_unquantified) simp_all
  then show ?thesis
    by (cases s) (auto simp add: match_suffix.simps)
qed

subsection \<open>A quantifier character met as an element\<close>

lemma check_string_leading:
  assumes "c \<noteq> CHR ''.''" and "r = [] \<or> (hd r \<noteq> CHR ''*'' \<and> hd r \<noteq> CHR ''+'')"
    and "length (c # r) + length s + 2 \<le> d"
  shows "RegexFSM_check_string d \<lparr>regex_expr = c # r\<rparr> s =
           (case s of [] \<Rightarrow> Some (Inr False)
            | x # s' \<Rightarrow>
                if x = c then RegexFSM_check_string d \<lparr>regex_expr = r\<rparr> s' else Some (Inr False))"
proof (cases s)
  case Nil
  then show ?thesis
    using assms(1,3) match_suffix_unquantified[OF assms(2), of s c]
      check_string_suffix[of "\<lparr>regex_expr = c # r\<rparr>" s d]
    by simp
next
  case (Cons x s')
  have "length (regex_expr \<lparr>regex_expr = r\<rparr>) + length s' + 2 \<le> d"
    using assms(3) Cons by simp
  from check_string_suffix[OF this] show ?thesis
    using assms(1,3) match_suffix_unquantified[OF assms(2), of s c]
      check_string_suffix[of "\<lparr>regex_expr = c # r\<rparr>" s d] Cons
    by auto
qed

lemma match_suffix_star_star:
  "match_suffix s [c, CHR ''*''] = (\<forall>x \<in> set s. c = x \<or> c = CHR ''.'')"
proof (induction s)
  case Nil
  show ?case by (simp add: match_suffix.simps)
next
  case (Cons a s)
  have "match_suffix (a # s) [c, CHR ''*''] =
      ((c = a \<or> c = CHR ''.'') \<and> match_suffix s [c, CHR ''*''])"
    by (subst match_suffix.simps) (simp add: match_suffix.simps(1))
  then show ?case using Cons by auto
qed

section \<open>The claims\<close>

text \<open>
  Claim C1.  At a cursor \<open>(i, j)\<close> inside the strings whose pattern element is followed by
  \<open>*\<close>, the matcher first makes the zero-occurrence call at \<open>(i, j + 2)\<close>: it returns
  \<open>True\<close> as soon as that call returns \<open>True\<close>, and it raises \<open>RecursionError\<close> when
  that call runs out of frames; when that call returns \<open>False\<close> and \<open>first_match\<close> holds,
  the result is that of the one-more-occurrence call at \<open>(i + 1, j)\<close>; otherwise it is
  \<open>False\<close>.  With at least as many frames for the recursive calls as positions are left in
  pattern and input, the zero-occurrence call does not run out of frames.  The pattern
  \<open>a*\<close> compiles and, with eight frames or more, accepts the empty string and \<open>aaaa\<close> and
  rejects \<open>b\<close>.
\<close>

theorem star_quantifier:
  "(\<forall>depth s i p j.
      0 \<le> i \<and> i \<le> int (length s) \<and> 0 \<le> j \<and> j + 1 < int (length p) \<and>
      p ! nat (j + 1) = CHR ''*'' \<longrightarrow>
      RegexFSM_match (Suc depth) s i p j =
        (if RegexFSM_match depth s i p (j + 2) = Some (Inr True) then Some (Inr True)
         else if RegexFSM_match depth s i p (j + 2) = Some (Inl RecursionError)
           then Some (Inl RecursionError)
         else if first_match s i (p ! nat j) = Inr True then RegexFSM_match depth s (i + 1) p j
         else Some (Inr False))) \<and>
   (\<forall>depth s i p j.
      0 \<le> i \<and> i \<le> int (length s) \<and> 0 \<le> j \<and> j + 1 < int (length p) \<and>
      p ! nat (j + 1) = CHR ''*'' \<and>
      int (length p) - j + (int (length s) - i) \<le> int depth \<longrightarrow>
      RegexFSM_match (Suc depth) s i p j =
        (if RegexFSM_match depth s i p (j + 2) = Some (Inr True) then Some (Inr True)
         else if first_match s i (p ! nat j) = Inr True then RegexFSM_match depth s (i + 1) p j
         else Some (Inr False))) \<and>
   (\<forall>h depth. 8 \<le> depth \<longrightarrow>
      (\<exists>h' fsm. RegexFSM_init ''a*'' h = (h', Inr fsm) \<and>
         RegexFSM_check_string depth fsm '''' = Some (Inr True) \<and>
         RegexFSM_check_string depth fsm ''aaaa'' = Some (Inr True) \<and>
         RegexFSM_check_string depth fsm ''b'' = Some (Inr False)))"
proof (intro conjI allI impI)
  fix depth :: nat and s p :: string and i j :: int
  assume a: "0 \<le> i \<and> i \<le> int (length s) \<and> 0 \<le> j \<and> j + 1 < int (length p) \<and>
      p ! nat (j + 1) = CHR ''*''"
  then have "0 \<le> i" "i \<le> int (length s)" "0 \<le> j" "j + 1 < int (length p)"
    "p ! nat (j + 1) = CHR ''*''"
    by simp_all
  then show "RegexFSM_match (Suc depth) s i p j =
        (if RegexFSM_match depth s i p (j + 2) = Some (Inr True) then Some (Inr True)
         else if RegexFSM_match depth s i p (j + 2) = Some (Inl RecursionError)
           then Some (Inl RecursionError)
         else if first_match s i (p ! nat j) = Inr True then RegexFSM_match depth s (i + 1) p j
         else Some (Inr False))"
    by (rule star_step_frames)
next
  fix depth :: nat and s p :: string and i j :: int
  assume a: "0 \<le> i \<and> i \<le> int (length s) \<and> 0 \<le> j \<and> j + 1 < int (length p) \<and>
      p ! nat (j + 1) = CHR ''*'' \<and>
      int (length p) - j + (int (length s) - i) \<le> int depth"
  then have "0 \<le> i" "i \<le> int (length s)" "0 \<le> j" "j + 1 < int (length p)"
    "p ! nat (j + 1) = CHR ''*''" "int (length p) - j + (int (length s) - i) \<le> int depth"
    by simp_all
  then show "RegexFSM_match (Suc depth) s i p j =
        (if RegexFSM_match depth s i p (j + 2) = Some (Inr True) then Some (Inr True)
         else if first_match s i (p ! nat j) = Inr True then RegexFSM_match depth s (i + 1) p j
         else Some (Inr False))"
    by (rule star_step)
next
  fix h :: heap and depth :: nat
  assume d: "8 \<le> depth"
  obtain h' where c: "RegexFSM_init ''a*'' h = (h', Inr \<lparr>regex_expr = ''a*''\<rparr>)"
    using init_ok[of "''a*''" h] by (auto simp add: isascii_def)
  have "RegexFSM_check_string depth \<lparr>regex_expr = ''a*''\<rparr> '''' = Some (Inr True)"
    using d by (simp add: check_string_suffix match_suffix.simps)
  moreover have "RegexFSM_check_string depth \<lparr>regex_expr = ''a*''\<rparr> ''aaaa'' = Some (Inr True)"
    using d by (simp add: check_string_suffix match_suffix.simps)
  moreover have "RegexFSM_check_string depth \<lparr>regex_expr = ''a*''\<rparr> ''b'' = Some (Inr False)"
    using d by (simp add: check_string_suffix match_suffix.simps)
  ultimately show "\<exists>h' fsm. RegexFSM_init ''a*'' h = (h', Inr fsm) \<and>
         RegexFSM_check_string depth fsm '''' = Some (Inr True) \<and>
         RegexFSM_check_string depth fsm ''aaaa'' = Some (Inr True) \<and>
         RegexFSM_check_string depth fsm ''b'' = Some (Inr False)"
    using c by blast
qed

text \<open>
  Instances: input \<open>aa\<close> against \<open>a*b\<close> at the cursor \<open>(0, 0)\<close>, where the
  zero-occurrence call returns \<open>False\<close> and \<open>first_match\<close> holds, with 1000 frames and
  with a single frame.
\<close>

theorem star_quantifier_witness:
  "((0::int) \<le> 0 \<and> 0 \<le> int (length ''aa'') \<and> (0::int) \<le> 0 \<and>
      0 + 1 < int (length ''a*b'') \<and> ''a*b'' ! nat (0 + 1) = CHR ''*'' \<and>
      int (length ''a*b'') - 0 + (int (length ''aa'') - 0) \<le> int 999) \<and>
   RegexFSM_match (Suc 999) ''aa'' 0 ''a*b'' 0 =
     (if RegexFSM_match 999 ''aa'' 0 ''a*b'' (0 + 2) = Some (Inr True) then Some (Inr True)
      else if first_match ''aa'' 0 (''a*b'' ! nat 0) = Inr True
        then RegexFSM_match 999 ''aa'' (0 + 1) ''a*b'' 0
      else Some (Inr False)) \<and>
   RegexFSM_match 999 ''aa'' 0 ''a*b'' (0 + 2) = Some (Inr False) \<and>
   first_match ''aa'' 0 (''a*b'' ! nat 0) = Inr True \<and>
   RegexFSM_match (Suc 0) ''aa'' 0 ''a*b'' 0 =
     (if RegexFSM_match 0 ''aa'' 0 ''a*b'' (0 + 2) = Some (Inr True) then Some (Inr True)
      else if RegexFSM_match 0 ''aa'' 0 ''a*b'' (0 + 2) = Some (Inl RecursionError)
        then Some (Inl RecursionError)
      else if first_match ''aa'' 0 (''a*b'' ! nat 0) = Inr True
        then RegexFSM_match 0 ''aa'' (0 + 1) ''a*b'' 0
      else Some (Inr False)) \<and>
   RegexFSM_match 0 ''aa'' 0 ''a*b'' (0 + 2) = Some (Inl RecursionError)"
proof (intro conjI)
  show "RegexFSM_match (Suc 999) ''aa'' 0 ''a*b'' 0 =
     (if RegexFSM_match 999 ''aa'' 0 ''a*b'' (0 + 2) = Some (Inr True) then Some (Inr True)
      else if first_match ''aa'' 0 (''a*b'' ! nat 0) = Inr True
        then RegexFSM_match 999 ''aa'' (0 + 1) ''a*b'' 0
      else Some (Inr False))"
    by (rule star_quantifier[THEN conjunct2, THEN conjunct1, rule_format]) simp
  show "RegexFSM_match 999 ''aa'' 0 ''a*b'' (0 + 2) = Some (Inr False)"
    using match_in_range_enough[of 0 "''aa''" 2 "''a*b''" 999] by (simp add: match_suffix.simps)
  show "first_match ''aa'' 0 (''a*b'' ! nat 0) = Inr True"
    by (simp add: first_match_in_range)
  show "RegexFSM_match (Suc 0) ''aa'' 0 ''a*b'' 0 =
     (if RegexFSM_match 0 ''aa'' 0 ''a*b'' (0 + 2) = Some (Inr True) then Some (Inr True)
      else if RegexFSM_match 0 ''aa'' 0 ''a*b'' (0 + 2) = Some (Inl RecursionError)
        then Some (Inl RecursionError)
      else if first_match ''aa'' 0 (''a*b'' ! nat 0) = Inr True
        then RegexFSM_match 0 ''aa'' (0 + 1) ''a*b'' 0
      else Some (Inr False))"
    by (rule star_quantifier[THEN conjunct1, rule_format]) simp
  show "RegexFSM_match 0 ''aa'' 0 ''a*b'' (0 + 2) = Some (Inl RecursionError)"
    by (rule match_no_frame)
qed simp_all

text \<open>
  Claim C2.  At a cursor \<open>(i, j)\<close> inside the strings whose pattern element is followed by
  \<open>+\<close>, the matcher returns \<open>False\<close> unless \<open>first_match\<close> holds; when it holds, the
  result is that of the call at \<open>(i + 1, j)\<close>, and that of the call at \<open>(i + 1, j + 2)\<close>
  when the first one returns \<open>False\<close>.  With at least as many frames for the recursive calls
  as positions are left, this is \<open>True\<close> exactly when \<open>first_match\<close> holds and one of the
  two calls returns \<open>True\<close>.  The pattern \<open>a+\<close> compiles and, with seven frames or more,
  rejects the empty string and accepts \<open>a\<close> and \<open>aaa\<close>.
\<close>

theorem plus_quantifier:
  "(\<forall>depth s i p j.
      0 \<le> i \<and> i \<le> int (length s) \<and> 0 \<le> j \<and> j + 1 < int (length p) \<and>
      p ! nat (j + 1) = CHR ''+'' \<longrightarrow>
      RegexFSM_match (Suc depth) s i p j =
        (if first_match s i (p ! nat j) \<noteq> Inr True then Some (Inr False)
         else if RegexFSM_match depth s (i + 1) p j = Some (Inr False)
           then RegexFSM_match depth s (i + 1) p (j + 2)
         else RegexFSM_match depth s (i + 1) p j)) \<and>
   (\<forall>depth s i p j.
      0 \<le> i \<and> i \<le> int (length s) \<and> 0 \<le> j \<and> j + 1 < int (length p) \<and>
      p ! nat (j + 1) = CHR ''+'' \<and>
      int (length p) - j + (int (length s) - i) \<le> int depth \<longrightarrow>
      RegexFSM_match (Suc depth) s i p j =
        Some (Inr (first_match s i (p ! nat j) = Inr True \<and>
          (RegexFSM_match depth s (i + 1) p j = Some (Inr True) \<or>
           RegexFSM_match depth s (i + 1) p (j + 2) = Some (Inr True))))) \<and>
   (\<forall>h depth. 7 \<le> depth \<longrightarrow>
      (\<exists>h' fsm. RegexFSM_init ''a+'' h = (h', Inr fsm) \<and>
         RegexFSM_check_string depth fsm '''' = Some (Inr False) \<and>
         RegexFSM_check_string depth fsm ''a'' = Some (Inr True) \<and>
         RegexFSM_check_string depth fsm ''aaa'' = Some (Inr True)))"
proof (intro conjI allI impI)
  fix depth :: nat and s p :: string and i j :: int
  assume a: "0 \<le> i \<and> i \<le> int (length s) \<and> 0 \<le> j \<and> j + 1 < int (length p) \<and>
      p ! nat (j + 1) = CHR ''+''"
  then have "0 \<le> i" "i \<le> int (length s)" "0 \<le> j" "j + 1 < int (length p)"
    "p ! nat (j + 1) = CHR ''+''"
    by simp_all
  then show "RegexFSM_match (Suc depth) s i p j =
        (if first_match s i (p ! nat j) \<noteq> Inr True then Some (Inr False)
         else if RegexFSM_match depth s (i + 1) p j = Some (Inr False)
           then RegexFSM_match depth s (i + 1) p (j + 2)
         else RegexFSM_match depth s (i + 1) p j)"
    by (rule plus_step_frames)
next
  fix depth :: nat and s p :: string and i j :: int
  assume a: "0 \<le> i \<and> i \<le> int (length s) \<and> 0 \<le> j \<and> j + 1 < int (length p) \<and>
      p ! nat (j + 1) = CHR ''+'' \<and>
      int (length p) - j + (int (length s) - i) \<le> int depth"
  then have "0 \<le> i" "i \<le> int (length s)" "0 \<le> j" "j + 1 < int (length p)"
    "p ! nat (j + 1) = CHR ''+''" "int (length p) - j + (int (length s) - i) \<le> int depth"
    by simp_all
  then show "RegexFSM_match (Suc depth) s i p j =
        Some (Inr (first_match s i (p ! nat j) = Inr True \<and>
          (RegexFSM_match depth s (i + 1) p j = Some (Inr True) \<or>
           RegexFSM_match depth s (i + 1) p (j + 2) = Some (Inr True))))"
    by (rule plus_step)
next
  fix h :: heap and depth :: nat
  assume d: "7 \<le> depth"
  obtain h' where c: "RegexFSM_init ''a+'' h = (h', Inr \<lparr>regex_expr = ''a+''\<rparr>)"
    using init_ok[of "''a+''" h] by (auto simp add: isascii_def)
  have "RegexFSM_check_string depth \<lparr>regex_expr = ''a+''\<rparr> '''' = Some (Inr False)"
    using d by (simp add: check_string_suffix match_suffix.simps)
  moreover have "RegexFSM_check_string depth \<lparr>regex_expr = ''a+''\<rparr> ''a'' = Some (Inr True)"
    using d by (simp add: check_string_suffix match_suffix.simps)
  moreover have "RegexFSM_check_string depth \<lparr>regex_expr = ''a+''\<rparr> ''aaa'' = Some (Inr True)"
    using d by (simp add: check_string_suffix match_suffix.simps)
  ultimately show "\<exists>h' fsm. RegexFSM_init ''a+'' h = (h', Inr fsm) \<and>
         RegexFSM_check_string depth fsm '''' = Some (Inr False) \<and>
         RegexFSM_check_string depth fsm ''a'' = Some (Inr True) \<and>
         RegexFSM_check_string depth fsm ''aaa'' = Some (Inr True)"
    using c by blast
qed

text \<open>
  Instances: input \<open>ab\<close> against \<open>a+b\<close> at the cursor \<open>(0, 0)\<close>, where the call that
  leaves the quantifier succeeds, with 1000 frames and with a single frame.
\<close>

theorem plus_quantifier_witness:
  "((0::int) \<le> 0 \<and> 0 \<le> int (length ''ab'') \<and> (0::int) \<le> 0 \<and>
      0 + 1 < int (length ''a+b'') \<and> ''a+b'' ! nat (0 + 1) = CHR ''+'' \<and>
      int (length ''a+b'') - 0 + (int (length ''ab'') - 0) \<le> int 999) \<and>
   RegexFSM_match (Suc 999) ''ab'' 0 ''a+b'' 0 =
     Some (Inr (first_match ''ab'' 0 (''a+b'' ! nat 0) = Inr True \<and>
       (RegexFSM_match 999 ''ab'' (0 + 1) ''a+b'' 0 = Some (Inr True) \<or>
        RegexFSM_match 999 ''ab'' (0 + 1) ''a+b'' (0 + 2) = Some (Inr True)))) \<and>
   first_match ''ab'' 0 (''a+b'' ! nat 0) = Inr True \<and>
   RegexFSM_match 999 ''ab'' (0 + 1) ''a+b'' 0 = Some (Inr False) \<and>
   RegexFSM_match 999 ''ab'' (0 + 1) ''a+b'' (0 + 2) = Some (Inr True) \<and>
   RegexFSM_match (Suc 0) ''ab'' 0 ''a+b'' 0 =
     (if first_match ''ab'' 0 (''a+b'' ! nat 0) \<noteq> Inr True then Some (Inr False)
      else if RegexFSM_match 0 ''ab'' (0 + 1) ''a+b'' 0 = Some (Inr False)
        then RegexFSM_match 0 ''ab'' (0 + 1) ''a+b'' (0 + 2)
      else RegexFSM_match 0 ''ab'' (0 + 1) ''a+b'' 0) \<and>
   RegexFSM_match 0 ''ab'' (0 + 1) ''a+b'' 0 = Some (Inl RecursionError)"
proof (intro conjI)
  show "RegexFSM_match (Suc 999) ''ab'' 0 ''a+b'' 0 =
     Some (Inr (first_match ''ab'' 0 (''a+b'' ! nat 0) = Inr True \<and>
       (RegexFSM_match 999 ''ab'' (0 + 1) ''a+b'' 0 = Some (Inr True) \<or>
        RegexFSM_match 999 ''ab'' (0 + 1) ''a+b'' (0 + 2) = Some (Inr True))))"
    by (rule plus_quantifier[THEN conjunct2, THEN conjunct1, rule_format]) simp
  show "first_match ''ab'' 0 (''a+b'' ! nat 0) = Inr True"
    by (simp add: first_match_in_range)
  show "RegexFSM_match 999 ''ab'' (0 + 1) ''a+b'' 0 = Some (Inr False)"
    using match_in_range_enough[of 1 "''ab''" 0 "''a+b''" 999] by (simp add: match_suffix.simps)
  show "RegexFSM_match 999 ''ab'' (0 + 1) ''a+b'' (0 + 2) = Some (Inr True)"
    using match_in_range_enough[of 1 "''ab''" 2 "''a+b''" 999] by (simp add: match_suffix.simps)
  show "RegexFSM_match (Suc 0) ''ab'' 0 ''a+b'' 0 =
     (if first_match ''ab'' 0 (''a+b'' ! nat 0) \<noteq> Inr True then Some (Inr False)
      else if RegexFSM_match 0 ''ab'' (0 + 1) ''a+b'' 0 = Some (Inr False)
        then RegexFSM_match 0 ''ab'' (0 + 1) ''a+b'' (0 + 2)
      else RegexFSM_match 0 ''ab'' (0 + 1) ''a+b'' 0)"
    by (rule plus_quantifier[THEN conjunct1, rule_format]) simp
  show "RegexFSM_match 0 ''ab'' (0 + 1) ''a+b'' 0 = Some (Inl RecursionError)"
    by (rule match_no_frame)
qed simp_all



text \<open>
  Claim C4.  The scenario of the script's main block: the pattern \<open>a*4.+hi\<close> compiles, on
  any heap, and the compiled pattern returns \<open>True\<close> on \<open>aaaaaa4uhi\<close>, \<open>True\<close> on
  \<open>4uhi\<close> and \<open>False\<close> on \<open>meow\<close>, whenever the interpreter allows 19 frames or more at
  the calls of \<open>check_string\<close>.
\<close>

theorem main_scenario:
  "19 \<le> depth \<Longrightarrow>
   \<exists>h' fsm. RegexFSM_init ''a*4.+hi'' h = (h', Inr fsm) \<and>
     RegexFSM_check_string depth fsm ''aaaaaa4uhi'' = Some (Inr True) \<and>
     RegexFSM_check_string depth fsm ''4uhi'' = Some (Inr True) \<and>
     RegexFSM_check_string depth fsm ''meow'' = Some (Inr False)"
proof -
  assume d: "19 \<le> depth"
  obtain h' where "RegexFSM_init ''a*4.+hi'' h = (h', Inr \<lparr>regex_expr = ''a*4.+hi''\<rparr>)"
    using init_ok[of "''a*4.+hi''" h] by (auto simp add: isascii_def)
  moreover have "RegexFSM_check_string depth \<lparr>regex_expr = ''a*4.+hi''\<rparr> ''aaaaaa4uhi'' =
      Some (Inr True)"
    using d by (simp add: check_string_suffix match_suffix.simps)
  moreover have "RegexFSM_check_string depth \<lparr>regex_expr = ''a*4.+hi''\<rparr> ''4uhi'' = Some (Inr True)"
    using d by (simp add: check_string_suffix match_suffix.simps)
  moreover have "RegexFSM_check_string depth \<lparr>regex_expr = ''a*4.+hi''\<rparr> ''meow'' = Some (Inr False)"
    using d by (simp add: check_string_suffix match_suffix.simps)
  ultimately show ?thesis by blast
qed

text \<open>
  The situation of the script: the heap of the freshly loaded module, and 999 frames, one
  less than the default recursion limit.
\<close>

theorem main_scenario_witness:
  "\<exists>h' fsm. RegexFSM_init ''a*4.+hi'' module_heap = (h', Inr fsm) \<and>
     RegexFSM_check_string 999 fsm ''aaaaaa4uhi'' = Some (Inr True) \<and>
     RegexFSM_check_string 999 fsm ''4uhi'' = Some (Inr True) \<and>
     RegexFSM_check_string 999 fsm ''meow'' = Some (Inr False)"
  by (rule main_scenario) simp


text \<open>
  Claim C6 (amended).  For a well-formed pattern that compiles, matching raises no error except
  \<open>RecursionError\<close>: on every input it either returns the boolean that says whether the
  whole input is in the language of the pattern, so \<open>False\<close> on every input the pattern does
  not fully match, or it runs out of frames.  It does not run out of frames when the
  interpreter allows at least the length of the pattern plus the length of the input plus two
  frames at the call of \<open>check_string\<close>.
\<close>

theorem matcher_decides_pattern:
  "\<forall>p s h h' fsm depth. spec_well_formed p \<and> RegexFSM_init p h = (h', Inr fsm) \<longrightarrow>
     (RegexFSM_check_string depth fsm s = Some (Inr (spec_fully_matches p s)) \<or>
      RegexFSM_check_string depth fsm s = Some (Inl RecursionError)) \<and>
     (length p + length s + 2 \<le> depth \<longrightarrow>
      RegexFSM_check_string depth fsm s = Some (Inr (spec_fully_matches p s)))"
proof (intro allI impI conjI)
  fix p s :: string and h h' :: heap and fsm :: RegexFSM and depth :: nat
  assume a: "spec_well_formed p \<and> RegexFSM_init p h = (h', Inr fsm)"
  from a have c: "RegexFSM_init p h = (h', Inr fsm)" by (rule conjunct2)
  have f: "fsm = \<lparr>regex_expr = p\<rparr>" using c by (rule init_Inr)
  show "RegexFSM_check_string depth fsm s = Some (Inr (spec_fully_matches p s)) \<or>
      RegexFSM_check_string depth fsm s = Some (Inl RecursionError)"
    unfolding f using check_string_lang_cases[of depth p s]
    by (auto simp add: verdict_or_overflow_def)
  assume d: "length p + length s + 2 \<le> depth"
  show "RegexFSM_check_string depth fsm s = Some (Inr (spec_fully_matches p s))"
    unfolding f using d by (rule check_string_lang)
qed

text \<open>
  An instance: the pattern \<open>a*4.+hi\<close> is well formed and compiles; with 999 frames,
  \<open>meow\<close> is rejected, as it is not in the language, and \<open>4uhi\<close> is accepted.
\<close>

theorem matcher_decides_pattern_witness:
  "spec_well_formed ''a*4.+hi'' \<and>
   RegexFSM_init ''a*4.+hi'' module_heap =
     (fst (RegexFSM_init ''a*4.+hi'' module_heap), Inr \<lparr>regex_expr = ''a*4.+hi''\<rparr>) \<and>
   length ''a*4.+hi'' + length ''meow'' + 2 \<le> (999::nat) \<and>
   RegexFSM_check_string 999 \<lparr>regex_expr = ''a*4.+hi''\<rparr> ''meow'' =
     Some (Inr (spec_fully_matches ''a*4.+hi'' ''meow'')) \<and>
   \<not> spec_fully_matches ''a*4.+hi'' ''meow'' \<and>
   length ''a*4.+hi'' + length ''4uhi'' + 2 \<le> (999::nat) \<and>
   RegexFSM_check_string 999 \<lparr>regex_expr = ''a*4.+hi''\<rparr> ''4uhi'' =
     Some (Inr (spec_fully_matches ''a*4.+hi'' ''4uhi'')) \<and>
   spec_fully_matches ''a*4.+hi'' ''4uhi''"
proof -
  have wf: "spec_well_formed ''a*4.+hi''"
    by (simp add: spec_well_formed_def is_quant_def)
  obtain h1 where "RegexFSM_init ''a*4.+hi'' module_heap = (h1, Inr \<lparr>regex_expr = ''a*4.+hi''\<rparr>)"
    using init_ok[of "''a*4.+hi''" module_heap] by (auto simp add: isascii_def)
  then have comp: "RegexFSM_init ''a*4.+hi'' module_heap =
     (fst (RegexFSM_init ''a*4.+hi'' module_heap), Inr \<lparr>regex_expr = ''a*4.+hi''\<rparr>)"
    by simp
  note gen = matcher_decides_pattern[rule_format, OF conjI[OF wf comp], THEN conjunct2, rule_format]
  have d1: "length ''a*4.+hi'' + length ''meow'' + 2 \<le> (999::nat)" by simp
  have d2: "length ''a*4.+hi'' + length ''4uhi'' + 2 \<le> (999::nat)" by simp
  have "\<not> spec_fully_matches ''a*4.+hi'' ''meow''"
    by (simp add: fully_matches_suffix match_suffix.simps)
  moreover have "spec_fully_matches ''a*4.+hi'' ''4uhi''"
    by (simp add: fully_matches_suffix match_suffix.simps)
  ultimately show ?thesis
    using wf comp d1 d2 gen[OF d1] gen[OF d2] by (intro conjI)
qed

text \<open>
  Without the bound on the frames the property fails: the well-formed pattern \<open>a*\<close> fully
  matches the input of 1000 letters \<open>a\<close>, and with the 1000 frames of the default recursion
  limit \<open>check_string\<close> raises \<open>RecursionError\<close> on it.
\<close>

theorem recursion_limit_reached:
  "spec_well_formed ''a*'' \<and>
   snd (RegexFSM_init ''a*'' module_heap) = Inr \<lparr>regex_expr = ''a*''\<rparr> \<and>
   spec_fully_matches ''a*'' (replicate 1000 (CHR ''a'')) \<and>
   RegexFSM_check_string 1000 \<lparr>regex_expr = ''a*''\<rparr> (replicate 1000 (CHR ''a'')) =
     Some (Inl RecursionError)"
proof (intro conjI)
  show "spec_well_formed ''a*''"
    by (simp add: spec_well_formed_def is_quant_def)
  show "snd (RegexFSM_init ''a*'' module_heap) = Inr \<lparr>regex_expr = ''a*''\<rparr>"
    by (simp add: init_result isascii_def)
  show "spec_fully_matches ''a*'' (replicate 1000 (CHR ''a''))"
    by (simp add: fully_matches_suffix match_suffix_star_star)
  show "RegexFSM_check_string 1000 \<lparr>regex_expr = ''a*''\<rparr> (replicate 1000 (CHR ''a'')) =
     Some (Inl RecursionError)"
    by (rule check_string_overflow) simp_all
qed

text \<open>
  Claim C7.  The recursion of \<open>_match\<close> terminates from every cursor, for every input,
  every pattern and every number of frames, and so does \<open>check_string\<close>: the call returns a
  value or raises, it never runs forever.  The remaining pattern and the remaining input bound
  the depth of the recursion: with more frames than positions left in both, the call does not
  reach the recursion limit.
\<close>

theorem matcher_terminates:
  "(\<exists>r. RegexFSM_match depth s i p j = Some r) \<and>
   (\<exists>r. RegexFSM_check_string depth self input_str = Some r) \<and>
   (nat (int (length p) - j) + nat (int (length s) - i) < depth \<longrightarrow>
      RegexFSM_match depth s i p j \<noteq> Some (Inl RecursionError))"
proof (intro conjI impI)
  show "\<exists>r. RegexFSM_match depth s i p j = Some r" by (rule match_total)
  show "\<exists>r. RegexFSM_check_string depth self input_str = Some r"
    using match_total[of "depth - 1" input_str 0 "regex_expr self" 0]
    by (simp add: RegexFSM_check_string_def)
  assume "nat (int (length p) - j) + nat (int (length s) - i) < depth"
  then show "RegexFSM_match depth s i p j \<noteq> Some (Inl RecursionError)"
    by (rule match_depth_bound)
qed

text \<open>
  An instance of the bound: \<open>aaaa\<close> against \<open>a*\<close> from the cursor \<open>(0, 0)\<close> does not
  run out of seven frames; it does run out of five.
\<close>

theorem matcher_terminates_witness:
  "nat (int (length ''a*'') - 0) + nat (int (length ''aaaa'') - 0) < (7::nat) \<and>
   RegexFSM_match 7 ''aaaa'' 0 ''a*'' 0 \<noteq> Some (Inl RecursionError) \<and>
   RegexFSM_match 7 ''aaaa'' 0 ''a*'' 0 = Some (Inr True) \<and>
   RegexFSM_match 5 ''aaaa'' 0 ''a*'' 0 = Some (Inl RecursionError)"
proof (intro conjI)
  show d: "nat (int (length ''a*'') - 0) + nat (int (length ''aaaa'') - 0) < (7::nat)" by simp
  show "RegexFSM_match 7 ''aaaa'' 0 ''a*'' 0 \<noteq> Some (Inl RecursionError)"
    by (rule matcher_terminates[THEN conjunct2, THEN conjunct2, rule_format, OF d])
  show "RegexFSM_match 7 ''aaaa'' 0 ''a*'' 0 = Some (Inr True)"
    using match_enough_frames[of 0 "''aaaa''" 0 "''a*''" 7] by (simp add: match_suffix.simps)
  show "RegexFSM_match 5 ''aaaa'' 0 ''a*'' 0 = Some (Inl RecursionError)"
    using star_chain_overflow[of "''aaaa''" "CHR ''a''" 5 "[]"] by simp
qed

text \<open>
  Claim C8.  When a pattern compiles, compiling the same pattern again, on the heap the first
  compilation left or on any other heap, succeeds as well, and the two compiled patterns give
  the same result on every input, with any number of frames.
\<close>

theorem compile_twice:
  "\<forall>p h h1 fsm1 h'. RegexFSM_init p h = (h1, Inr fsm1) \<longrightarrow>
     (\<exists>h2 fsm2. RegexFSM_init p h' = (h2, Inr fsm2) \<and>
        (\<forall>depth s. RegexFSM_check_string depth fsm1 s = RegexFSM_check_string depth fsm2 s))"
proof (intro allI impI)
  fix p :: string and h h1 h' :: heap and fsm1 :: RegexFSM
  assume c: "RegexFSM_init p h = (h1, Inr fsm1)"
  have f: "fsm1 = \<lparr>regex_expr = p\<rparr>" using c by (rule init_Inr)
  have "\<forall>c \<in> set p. isascii c" using c by (rule init_Inr_ascii)
  then obtain h2 where "RegexFSM_init p h' = (h2, Inr \<lparr>regex_expr = p\<rparr>)"
    using init_ok[of p h'] by blast
  then show "\<exists>h2 fsm2. RegexFSM_init p h' = (h2, Inr fsm2) \<and>
        (\<forall>depth s. RegexFSM_check_string depth fsm1 s = RegexFSM_check_string depth fsm2 s)"
    unfolding f by blast
qed

text \<open>
  An instance: \<open>a*\<close> compiled on the heap of the freshly loaded module, and again on the heap
  that the first compilation left.
\<close>

theorem compile_twice_witness:
  "\<exists>h2 fsm2.
     RegexFSM_init ''a*'' (fst (RegexFSM_init ''a*'' module_heap)) = (h2, Inr fsm2) \<and>
     (\<forall>depth s. RegexFSM_check_string depth \<lparr>regex_expr = ''a*''\<rparr> s =
        RegexFSM_check_string depth fsm2 s)"
proof -
  obtain h1 where "RegexFSM_init ''a*'' module_heap = (h1, Inr \<lparr>regex_expr = ''a*''\<rparr>)"
    using init_ok[of "''a*''" module_heap] by (auto simp add: isascii_def)
  then have "RegexFSM_init ''a*'' module_heap =
      (fst (RegexFSM_init ''a*'' module_heap), Inr \<lparr>regex_expr = ''a*''\<rparr>)"
    by simp
  then show ?thesis
    by (rule compile_twice[rule_format])
qed

text \<open>
  Claim C9, on the code.  The claim says that compiling one pattern never modifies state
  reachable from a pattern compiled before.  Every instance reads \<open>curr_state\<close> from the
  class, and \<open>__init__\<close> appends the new states to the \<open>next_states\<close> of that one object:
  after compiling \<open>a\<close> the start state has two successors, and compiling \<open>b\<close> afterwards
  gives the same start state four.
\<close>

theorem shared_start_state:
  "fst (RegexFSM_init ''a'' module_heap) ! RegexFSM_curr_state =
     \<lparr>kind = StartState, next_states = [1, 2]\<rparr> \<and>
   fst (RegexFSM_init ''b'' (fst (RegexFSM_init ''a'' module_heap))) ! RegexFSM_curr_state =
     \<lparr>kind = StartState, next_states = [1, 2, 3, 4]\<rparr>"
  by code_simp

text \<open>
  Claim C10 (amended).  For every pattern and every input, whatever the place of the
  quantifiers in the pattern, matching never reads a missing element: it returns a boolean or
  runs out of frames, and it returns a boolean when the interpreter allows at least the length
  of the pattern plus the length of the input plus two frames.  When the cursor reaches a
  \<open>*\<close> or a \<open>+\<close> as the element to match (it was not consumed as the quantifier of the
  element before it) and the next character is not a quantifier, the element is matched as a
  literal character: the match goes on at \<open>(i + 1, j + 1)\<close> when the input character is
  that same character, and fails otherwise.  In particular a pattern that begins with a
  quantifier not followed by another quantifier accepts exactly the inputs that begin with that
  character and go on with an input accepted by the rest of the pattern.  A \<open>*\<close> that
  follows such a character is its quantifier: the pattern made of a quantifier character and
  \<open>*\<close> accepts exactly the inputs made of that character only, the empty input among them.
  The pattern \<open>*\<close> compiles and accepts the input \<open>*\<close> and nothing else.
\<close>

theorem stray_quantifier:
  "(\<forall>depth fsm s.
      (RegexFSM_check_string depth fsm s = Some (Inl RecursionError) \<or>
       (\<exists>b. RegexFSM_check_string depth fsm s = Some (Inr b))) \<and>
      (length (regex_expr fsm) + length s + 2 \<le> depth \<longrightarrow>
       (\<exists>b. RegexFSM_check_string depth fsm s = Some (Inr b)))) \<and>
   (\<forall>depth s i p j.
      0 \<le> i \<and> 0 \<le> j \<and> j < int (length p) \<and>
      (p ! nat j = CHR ''*'' \<or> p ! nat j = CHR ''+'') \<and> next_is_quant p j = Inr False \<longrightarrow>
      RegexFSM_match (Suc depth) s i p j =
        (if i < int (length s) \<and> s ! nat i = p ! nat j
         then RegexFSM_match depth s (i + 1) p (j + 1)
         else Some (Inr False))) \<and>
   (\<forall>depth q r s.
      (q = CHR ''*'' \<or> q = CHR ''+'') \<and> (r = [] \<or> (hd r \<noteq> CHR ''*'' \<and> hd r \<noteq> CHR ''+'')) \<and>
      length (q # r) + length s + 2 \<le> depth \<longrightarrow>
      RegexFSM_check_string depth \<lparr>regex_expr = q # r\<rparr> s =
        (case s of [] \<Rightarrow> Some (Inr False)
         | x # s' \<Rightarrow>
             if x = q then RegexFSM_check_string depth \<lparr>regex_expr = r\<rparr> s'
             else Some (Inr False))) \<and>
   (\<forall>depth q s.
      (q = CHR ''*'' \<or> q = CHR ''+'') \<and> length s + 4 \<le> depth \<longrightarrow>
      RegexFSM_check_string depth \<lparr>regex_expr = [q, CHR ''*'']\<rparr> s =
        Some (Inr (\<forall>x \<in> set s. x = q))) \<and>
   (\<forall>h depth. 3 \<le> depth \<longrightarrow>
      (\<exists>h' fsm. RegexFSM_init ''*'' h = (h', Inr fsm) \<and>
         (\<forall>s. RegexFSM_check_string depth fsm s = Some (Inr (s = ''*'')))))"
proof (intro conjI allI impI)
  fix depth :: nat and fsm :: RegexFSM and s :: string
  show "RegexFSM_check_string depth fsm s = Some (Inl RecursionError) \<or>
       (\<exists>b. RegexFSM_check_string depth fsm s = Some (Inr b))"
    using check_string_cases[of depth fsm s] by (auto simp add: verdict_or_overflow_def)
  assume "length (regex_expr fsm) + length s + 2 \<le> depth"
  then show "\<exists>b. RegexFSM_check_string depth fsm s = Some (Inr b)"
    using check_string_suffix[of fsm s depth] by blast
next
  fix depth :: nat and s p :: string and i j :: int
  assume a: "0 \<le> i \<and> 0 \<le> j \<and> j < int (length p) \<and>
      (p ! nat j = CHR ''*'' \<or> p ! nat j = CHR ''+'') \<and> next_is_quant p j = Inr False"
  then have "0 \<le> i" "0 \<le> j" "j < int (length p)" "p ! nat j \<noteq> CHR ''.''"
    "next_is_quant p j = Inr False"
    by auto
  then show "RegexFSM_match (Suc depth) s i p j =
        (if i < int (length s) \<and> s ! nat i = p ! nat j
         then RegexFSM_match depth s (i + 1) p (j + 1)
         else Some (Inr False))"
    by (rule literal_step)
next
  fix depth :: nat and q :: char and r s :: string
  assume a: "(q = CHR ''*'' \<or> q = CHR ''+'') \<and>
      (r = [] \<or> (hd r \<noteq> CHR ''*'' \<and> hd r \<noteq> CHR ''+'')) \<and>
      length (q # r) + length s + 2 \<le> depth"
  then have "q \<noteq> CHR ''.''" "r = [] \<or> (hd r \<noteq> CHR ''*'' \<and> hd r \<noteq> CHR ''+'')"
    "length (q # r) + length s + 2 \<le> depth"
    by auto
  then show "RegexFSM_check_string depth \<lparr>regex_expr = q # r\<rparr> s =
        (case s of [] \<Rightarrow> Some (Inr False)
         | x # s' \<Rightarrow>
             if x = q then RegexFSM_check_string depth \<lparr>regex_expr = r\<rparr> s'
             else Some (Inr False))"
    by (rule check_string_leading)
next
  fix depth :: nat and q :: char and s :: string
  assume a: "(q = CHR ''*'' \<or> q = CHR ''+'') \<and> length s + 4 \<le> depth"
  then have q: "q \<noteq> CHR ''.''" by auto
  have "length (regex_expr \<lparr>regex_expr = [q, CHR ''*'']\<rparr>) + length s + 2 \<le> depth"
    using a by simp
  from check_string_suffix[OF this]
  show "RegexFSM_check_string depth \<lparr>regex_expr = [q, CHR ''*'']\<rparr> s =
        Some (Inr (\<forall>x \<in> set s. x = q))"
    using q by (auto simp add: match_suffix_star_star)
next
  fix h :: heap and depth :: nat
  assume d: "3 \<le> depth"
  obtain h' where c: "RegexFSM_init ''*'' h = (h', Inr \<lparr>regex_expr = ''*''\<rparr>)"
    using init_ok[of "''*''" h] by (auto simp add: isascii_def)
  have "\<forall>s. RegexFSM_check_string depth \<lparr>regex_expr = ''*''\<rparr> s = Some (Inr (s = ''*''))"
    using d by (auto simp add: check_string_single)
  then show "\<exists>h' fsm. RegexFSM_init ''*'' h = (h', Inr fsm) \<and>
      (\<forall>s. RegexFSM_check_string depth fsm s = Some (Inr (s = ''*'')))"
    using c by blast
qed

text \<open>
  Instances, with 999 frames: in \<open>a*+b\<close> the \<open>+\<close> at position 2 follows a quantifier and
  is followed by \<open>b\<close>, and the pattern accepts \<open>aa+b\<close> and rejects \<open>aab\<close>; the pattern
  \<open>+a\<close> accepts \<open>+a\<close> and rejects \<open>a\<close>; the pattern \<open>**\<close> accepts \<open>***\<close> and
  rejects \<open>*a\<close>.
\<close>

theorem stray_quantifier_witness:
  "RegexFSM_match (Suc 999) ''+b'' 0 ''a*+b'' 2 =
     (if 0 < int (length ''+b'') \<and> ''+b'' ! nat 0 = ''a*+b'' ! nat 2
      then RegexFSM_match 999 ''+b'' (0 + 1) ''a*+b'' (2 + 1)
      else Some (Inr False)) \<and>
   ''a*+b'' ! nat 2 = CHR ''+'' \<and>
   next_is_quant ''a*+b'' 2 = Inr False \<and>
   RegexFSM_check_string 999 \<lparr>regex_expr = ''a*+b''\<rparr> ''aa+b'' = Some (Inr True) \<and>
   RegexFSM_check_string 999 \<lparr>regex_expr = ''a*+b''\<rparr> ''aab'' = Some (Inr False) \<and>
   RegexFSM_check_string 999 \<lparr>regex_expr = ''+a''\<rparr> ''+a'' =
     (case ''+a'' of [] \<Rightarrow> Some (Inr False)
      | x # s' \<Rightarrow>
          if x = CHR ''+'' then RegexFSM_check_string 999 \<lparr>regex_expr = ''a''\<rparr> s'
          else Some (Inr False)) \<and>
   RegexFSM_check_string 999 \<lparr>regex_expr = ''+a''\<rparr> ''+a'' = Some (Inr True) \<and>
   RegexFSM_check_string 999 \<lparr>regex_expr = ''+a''\<rparr> ''a'' = Some (Inr False) \<and>
   RegexFSM_check_string 999 \<lparr>regex_expr = ''**''\<rparr> ''***'' =
     Some (Inr (\<forall>x \<in> set ''***''. x = CHR ''*'')) \<and>
   RegexFSM_check_string 999 \<lparr>regex_expr = ''**''\<rparr> ''*a'' = Some (Inr False) \<and>
   (\<exists>b. RegexFSM_check_string 999 \<lparr>regex_expr = ''+*+''\<rparr> ''++'' = Some (Inr b))"
proof (intro conjI)
  show "RegexFSM_match (Suc 999) ''+b'' 0 ''a*+b'' 2 =
     (if 0 < int (length ''+b'') \<and> ''+b'' ! nat 0 = ''a*+b'' ! nat 2
      then RegexFSM_match 999 ''+b'' (0 + 1) ''a*+b'' (2 + 1)
      else Some (Inr False))"
    by (rule stray_quantifier[THEN conjunct2, THEN conjunct1, rule_format])
       (simp add: next_is_quant_in_range)
  show "next_is_quant ''a*+b'' 2 = Inr False"
    by (simp add: next_is_quant_in_range)
  show "RegexFSM_check_string 999 \<lparr>regex_expr = ''a*+b''\<rparr> ''aa+b'' = Some (Inr True)"
    by (simp add: check_string_suffix match_suffix.simps)
  show "RegexFSM_check_string 999 \<lparr>regex_expr = ''a*+b''\<rparr> ''aab'' = Some (Inr False)"
    by (simp add: check_string_suffix match_suffix.simps)
  show "RegexFSM_check_string 999 \<lparr>regex_expr = ''+a''\<rparr> ''+a'' =
     (case ''+a'' of [] \<Rightarrow> Some (Inr False)
      | x # s' \<Rightarrow>
          if x = CHR ''+'' then RegexFSM_check_string 999 \<lparr>regex_expr = ''a''\<rparr> s'
          else Some (Inr False))"
    by (rule stray_quantifier[THEN conjunct2, THEN conjunct2, THEN conjunct1, rule_format]) simp
  show "RegexFSM_check_string 999 \<lparr>regex_expr = ''+a''\<rparr> ''+a'' = Some (Inr True)"
    by (simp add: check_string_suffix match_suffix.simps)
  show "RegexFSM_check_string 999 \<lparr>regex_expr = ''+a''\<rparr> ''a'' = Some (Inr False)"
    by (simp add: check_string_suffix match_suffix.simps)
  show "RegexFSM_check_string 999 \<lparr>regex_expr = ''**''\<rparr> ''***'' =
     Some (Inr (\<forall>x \<in> set ''***''. x = CHR ''*''))"
    by (rule stray_quantifier[THEN conjunct2, THEN conjunct2, THEN conjunct2, THEN conjunct1,
          rule_format]) simp
  show "RegexFSM_check_string 999 \<lparr>regex_expr = ''**''\<rparr> ''*a'' = Some (Inr False)"
    by (simp add: check_string_suffix match_suffix.simps)
  show "\<exists>b. RegexFSM_check_string 999 \<lparr>regex_expr = ''+*+''\<rparr> ''++'' = Some (Inr b)"
    by (rule stray_quantifier[THEN conjunct1, rule_format, THEN conjunct2, rule_format]) simp
qed simp

text \<open>
  In the pattern \<open>**\<close> the second \<open>*\<close> has no atom before it and no quantifier after it,
  and it is not a literal: the pattern accepts the empty input.  With the 1000 frames of the
  default recursion limit the same pattern raises \<open>RecursionError\<close> on the input of 1000
  characters \<open>*\<close>.
\<close>

theorem second_star_quantifies:
  "RegexFSM_check_string 1000 \<lparr>regex_expr = ''**''\<rparr> [] = Some (Inr True) \<and>
   RegexFSM_check_string 1000 \<lparr>regex_expr = ''**''\<rparr> (replicate 1000 (CHR ''*'')) =
     Some (Inl RecursionError)"
proof (intro conjI)
  show "RegexFSM_check_string 1000 \<lparr>regex_expr = ''**''\<rparr> [] = Some (Inr True)"
    by (simp add: check_string_suffix match_suffix.simps)
  show "RegexFSM_check_string 1000 \<lparr>regex_expr = ''**''\<rparr> (replicate 1000 (CHR ''*'')) =
     Some (Inl RecursionError)"
    by (rule check_string_overflow) simp_all
qed

end
